theory Spec2Isabelle
  imports Complex_Main "HOL-Library.Word" "HOL-Library.AList"
begin

unbundle bit_operations_syntax

section \<open>JavaScript values and faults\<close>

text \<open>
  A thrown JavaScript value is either an \<open>Error\<close> instance, which carries a message,
  or some other value. Every \<open>try\<close>/\<open>catch\<close> of the source is a case split on a
  result of type \<open>fault + 'a\<close>, with \<open>Inl\<close> for the thrown value.
\<close>

datatype fault = JsError string | NonError

text \<open>
  The values \<open>JSON.parse\<close> produces. A number is the rational value of the finite
  double, or one of the two infinities that an overflowing literal parses to.
\<close>

datatype number = Finite rat | Infinity bool

datatype json =
    JNull
  | JBool bool
  | JNum number
  | JStr string
  | JArr "json list"
  | JObj "(string \<times> json) list"

text \<open>
  Reading a property: \<open>null.p\<close> throws a TypeError, an object yields its own property or
  \<open>undefined\<close> (here \<open>None\<close>), and the primitives and arrays that JSON can produce have
  no property named \<open>url\<close> or \<open>key\<close>, so they yield \<open>undefined\<close>.
\<close>

fun get_prop :: "json \<Rightarrow> string \<Rightarrow> fault + json option" where
  "get_prop JNull p = Inl (JsError ''Cannot read properties of null'')"
| "get_prop (JObj kvs) p = Inr (map_of kvs p)"
| "get_prop v p = Inr None"

text \<open>JavaScript truthiness of a possibly undefined JSON value.\<close>

fun truthy :: "json option \<Rightarrow> bool" where
  "truthy None = False"
| "truthy (Some JNull) = False"
| "truthy (Some (JBool b)) = b"
| "truthy (Some (JNum (Finite q))) = (q \<noteq> 0)"
| "truthy (Some (JNum (Infinity s))) = True"
| "truthy (Some (JStr s)) = (s \<noteq> [])"
| "truthy (Some (JArr vs)) = True"
| "truthy (Some (JObj kvs)) = True"

definition startsWith :: "string \<Rightarrow> string \<Rightarrow> bool" where
  "startsWith s p = (take (length p) s = p)"

section \<open>The connection descriptor parser\<close>

text \<open>
  \<open>SecureWebSocketService.parseQRData\<close> (websocket.ts). \<open>JSON.parse\<close> is a built-in of
  the host and is taken as the parameter \<open>JSON_parse\<close>: \<open>Inl\<close> is the SyntaxError it
  throws on text that is not JSON.

  The body of the \<open>try\<close> either returns the parsed value (\<open>Inr (Some v)\<close>), falls out of
  the block (\<open>Inr None\<close>) or throws; the \<open>catch\<close> block receives every fault of the body,
  the TypeError of \<open>parsed.url\<close> on \<open>null\<close> included.
\<close>

definition parseQRData_try :: "(string \<Rightarrow> fault + json) \<Rightarrow> string \<Rightarrow> fault + json option" where
  "parseQRData_try JSON_parse qrData =
     (case JSON_parse qrData of
        Inl e \<Rightarrow> Inl e
      | Inr parsed \<Rightarrow>
          (case get_prop parsed ''url'' of
             Inl e \<Rightarrow> Inl e
           | Inr u \<Rightarrow> if truthy u then Inr (Some parsed) else Inr None))"

definition parseQRData_catch :: "string \<Rightarrow> fault + json option" where
  "parseQRData_catch qrData =
     (if startsWith qrData ''ws://'' \<or> startsWith qrData ''wss://''
      then Inr (Some (JObj [(''url'', JStr qrData)]))
      else Inr None)"

definition parseQRData :: "(string \<Rightarrow> fault + json) \<Rightarrow> string \<Rightarrow> fault + json option" where
  "parseQRData JSON_parse qrData =
     (case parseQRData_try JSON_parse qrData of
        Inr (Some r) \<Rightarrow> Inr (Some r)
      | Inr None \<Rightarrow> Inr None
      | Inl e \<Rightarrow> parseQRData_catch qrData)"

text \<open>
  A table of \<open>JSON.parse\<close> on the few texts used as concrete inputs below; every other
  text is treated as not being JSON.
\<close>

definition sample_JSON_parse :: "string \<Rightarrow> fault + json" where
  \<open>sample_JSON_parse s =
     (if s = ''{"endpoint":"wss://h/p","key":"k"}''
        then Inr (JObj [(''endpoint'', JStr ''wss://h/p''), (''key'', JStr ''k'')])
      else if s = ''{"url":"http://h/p","key":"k","n":1}''
        then Inr (JObj [(''url'', JStr ''http://h/p''), (''key'', JStr ''k''),
                        (''n'', JNum (Finite 1))])
      else if s = ''null'' then Inr JNull
      else Inl (JsError ''Unexpected token''))\<close>

section \<open>The channel manager\<close>

text \<open>
  \<open>SecureWebSocketService\<close> (websocket.ts) as a state machine. The service object has
  the fields \<open>ws\<close>, \<open>url\<close> and \<open>reconnectAttempts\<close>; \<open>maxReconnectAttempts\<close> and
  \<open>reconnectDelay\<close> are never assigned after their initialisers and are constants here.

  The host environment is made explicit in the same record:
  \<^item> \<open>sockets\<close>: every \<open>WebSocket\<close> object created so far, with its \<open>readyState\<close>;
    \<open>ws\<close> is an index into this list, so a socket that the service no longer references
    is still there, with its handlers still attached;
  \<^item> \<open>promises\<close>: the promise of every \<open>connect\<close> call, settled at most once;
  \<^item> \<open>timers\<close>: the pending \<open>setTimeout\<close> callbacks, and \<open>timeouts_set\<close> the log of
    every \<open>setTimeout\<close> call in order;
  \<^item> \<open>status\<close>: the last value passed to \<open>onStatusChange\<close>, and \<open>errors\<close> the
    messages passed to \<open>onError\<close>.
\<close>

datatype ConnectionStatus = Disconnected | Connecting | Connected | Error

datatype ready_state = CONNECTING | OPEN | CLOSING | CLOSED

datatype promise = Pending | Resolved | Rejected fault

datatype timer =
    ConnectionTimeout nat nat  \<comment> \<open>delay in ms, promise of the \<open>connect\<close> call that armed it\<close>
  | ReconnectTimer nat         \<comment> \<open>delay in ms\<close>

record socket =
  sock_url :: string
  readyState :: ready_state
  sock_promise :: nat  \<comment> \<open>the promise whose \<open>resolve\<close>/\<open>reject\<close> the handlers close over\<close>

record service =
  ws :: "nat option"
  url :: string
  reconnectAttempts :: nat
  sockets :: "socket list"
  promises :: "promise list"
  timers :: "timer list"
  timeouts_set :: "timer list"
  status :: ConnectionStatus
  errors :: "string list"

definition maxReconnectAttempts :: nat where
  "maxReconnectAttempts = 3"

definition reconnectDelay :: nat where
  "reconnectDelay = 1000"

definition new_service :: service where
  "new_service = \<lparr>ws = None, url = [], reconnectAttempts = 0, sockets = [], promises = [],
     timers = [], timeouts_set = [], status = Disconnected, errors = []\<rparr>"

text \<open>\<open>resolve\<close> and \<open>reject\<close>: a promise that is already settled stays as it is.\<close>

definition settle :: "nat \<Rightarrow> promise \<Rightarrow> promise list \<Rightarrow> promise list" where
  "settle p v ps = (if p < length ps \<and> ps ! p = Pending then ps[p := v] else ps)"

text \<open>
  The method \<open>close\<close> of a socket: a socket that is connecting or open starts closing,
  any other is left alone. The close event itself comes later, from the environment.
\<close>

definition socket_close :: "nat \<Rightarrow> socket list \<Rightarrow> socket list" where
  "socket_close i socks =
     (if i < length socks \<and> (readyState (socks ! i) = CONNECTING \<or> readyState (socks ! i) = OPEN)
      then socks[i := (socks ! i)\<lparr>readyState := CLOSING\<rparr>]
      else socks)"

definition setTimeout :: "timer \<Rightarrow> service \<Rightarrow> service" where
  "setTimeout t s = s\<lparr>timers := timers s @ [t], timeouts_set := timeouts_set s @ [t]\<rparr>"

text \<open>
  \<open>connect(url)\<close>. The constructor \<open>new WebSocket(url)\<close> belongs to the host and may
  throw (a malformed URL): \<open>WebSocket_new url = Some e\<close> says that it throws \<open>e\<close>. The
  statements before it in the \<open>try\<close> block have run by then, the timeout after it has not
  been armed, and the \<open>catch\<close> block reports \<open>error\<close> and rejects. The previous socket, if
  any, is not touched: the field \<open>ws\<close> is overwritten.
\<close>

definition connect :: "(string \<Rightarrow> fault option) \<Rightarrow> string \<Rightarrow> service \<Rightarrow> service" where
  "connect WebSocket_new u s =
     (let p = length (promises s);
          s1 = s\<lparr>promises := promises s @ [Pending], url := u, status := Connecting\<rparr>
      in case WebSocket_new u of
           None \<Rightarrow>
             setTimeout (ConnectionTimeout 10000 p)
               (s1\<lparr>sockets := sockets s1 @ [\<lparr>sock_url = u, readyState = CONNECTING, sock_promise = p\<rparr>],
                   ws := Some (length (sockets s1))\<rparr>)
         | Some e \<Rightarrow>
             s1\<lparr>status := Error, promises := settle p (Rejected e) (promises s1)\<rparr>)"

text \<open>The handlers that \<open>connect\<close> attaches to the socket it creates.\<close>

definition onopen :: "nat \<Rightarrow> service \<Rightarrow> service" where
  "onopen i s =
     s\<lparr>reconnectAttempts := 0, status := Connected,
       promises := settle (sock_promise (sockets s ! i)) Resolved (promises s)\<rparr>"

definition onerror :: "nat \<Rightarrow> service \<Rightarrow> service" where
  "onerror i s =
     s\<lparr>status := Error, errors := errors s @ [''Connection error''],
       promises := settle (sock_promise (sockets s ! i))
                     (Rejected (JsError ''WebSocket connection failed'')) (promises s)\<rparr>"

definition reconnect :: "service \<Rightarrow> service" where
  "reconnect s =
     (let s1 = s\<lparr>reconnectAttempts := reconnectAttempts s + 1\<rparr>
      in setTimeout (ReconnectTimer (reconnectDelay * reconnectAttempts s1)) s1)"

definition onclose :: "nat \<Rightarrow> bool \<Rightarrow> service \<Rightarrow> service" where
  "onclose i wasClean s =
     (let s1 = s\<lparr>status := Disconnected\<rparr>
      in if \<not> wasClean \<and> reconnectAttempts s1 < maxReconnectAttempts then reconnect s1 else s1)"

text \<open>
  The two timer callbacks. The connection timeout looks at the socket that \<open>ws\<close>
  references when it fires; with \<open>ws\<close> null the optional chaining yields \<open>undefined\<close>,
  which differs from \<open>OPEN\<close>, and the \<open>close\<close> call is skipped.
\<close>

definition connection_timeout :: "nat \<Rightarrow> service \<Rightarrow> service" where
  "connection_timeout p s =
     (case ws s of
        None \<Rightarrow> s\<lparr>promises := settle p (Rejected (JsError ''Connection timeout'')) (promises s)\<rparr>
      | Some i \<Rightarrow>
          if readyState (sockets s ! i) \<noteq> OPEN
          then s\<lparr>sockets := socket_close i (sockets s),
                 promises := settle p (Rejected (JsError ''Connection timeout'')) (promises s)\<rparr>
          else s)"

definition reconnect_fires :: "(string \<Rightarrow> fault option) \<Rightarrow> service \<Rightarrow> service" where
  "reconnect_fires WebSocket_new s =
     (if reconnectAttempts s \<le> maxReconnectAttempts then connect WebSocket_new (url s) s else s)"

definition disconnect :: "service \<Rightarrow> service" where
  "disconnect s =
     (case ws s of
        Some i \<Rightarrow> s\<lparr>sockets := socket_close i (sockets s), ws := None, status := Disconnected\<rparr>
      | None \<Rightarrow> s\<lparr>status := Disconnected\<rparr>)"

text \<open>
  What can happen to the service: a call of its interface, an event that the environment
  fires on one of the sockets, or a pending timer that comes due. The environment opens
  only a socket that is connecting and closes a socket once; an event it cannot fire
  leaves the state as it is.
\<close>

datatype event =
    ApiConnect string
  | ApiDisconnect
  | SockOpen nat
  | SockError nat
  | SockClose nat bool  \<comment> \<open>\<open>wasClean\<close>\<close>
  | TimerFires nat      \<comment> \<open>position in \<open>timers\<close>\<close>

definition fire_timer :: "(string \<Rightarrow> fault option) \<Rightarrow> nat \<Rightarrow> service \<Rightarrow> service" where
  "fire_timer WebSocket_new k s =
     (if k < length (timers s)
      then (let s1 = s\<lparr>timers := take k (timers s) @ drop (Suc k) (timers s)\<rparr>
            in case timers s ! k of
                 ReconnectTimer d \<Rightarrow> reconnect_fires WebSocket_new s1
               | ConnectionTimeout d p \<Rightarrow> connection_timeout p s1)
      else s)"

fun step :: "(string \<Rightarrow> fault option) \<Rightarrow> event \<Rightarrow> service \<Rightarrow> service" where
  "step W (ApiConnect u) s = connect W u s"
| "step W ApiDisconnect s = disconnect s"
| "step W (SockOpen i) s =
     (if i < length (sockets s) \<and> readyState (sockets s ! i) = CONNECTING
      then onopen i (s\<lparr>sockets := (sockets s)[i := (sockets s ! i)\<lparr>readyState := OPEN\<rparr>]\<rparr>)
      else s)"
| "step W (SockError i) s = (if i < length (sockets s) then onerror i s else s)"
| "step W (SockClose i wasClean) s =
     (if i < length (sockets s) \<and> readyState (sockets s ! i) \<noteq> CLOSED
      then onclose i wasClean (s\<lparr>sockets := (sockets s)[i := (sockets s ! i)\<lparr>readyState := CLOSED\<rparr>]\<rparr>)
      else s)"
| "step W (TimerFires k) s = fire_timer W k s"

fun run :: "(string \<Rightarrow> fault option) \<Rightarrow> event list \<Rightarrow> service \<Rightarrow> service" where
  "run W [] s = s"
| "run W (e # es) s = run W es (step W e s)"

text \<open>The delays of the reconnect timers in a list of timers, in order.\<close>

fun reconnect_delays :: "timer list \<Rightarrow> nat list" where
  "reconnect_delays [] = []"
| "reconnect_delays (ReconnectTimer d # ts) = d # reconnect_delays ts"
| "reconnect_delays (ConnectionTimeout d p # ts) = reconnect_delays ts"

text \<open>A connection is active while it is connecting or open.\<close>

definition active :: "socket \<Rightarrow> bool" where
  "active k = (readyState k = CONNECTING \<or> readyState k = OPEN)"

definition active_connections :: "service \<Rightarrow> nat" where
  "active_connections s = length (filter active (sockets s))"

text \<open>The events that create a connection: a client \<open>connect\<close> and a reconnect timer.\<close>

fun opens_connection :: "event \<Rightarrow> service \<Rightarrow> bool" where
  "opens_connection (ApiConnect u) s = True"
| "opens_connection (TimerFires k) s =
     (k < length (timers s) \<and> (case timers s ! k of ReconnectTimer d \<Rightarrow> True | _ \<Rightarrow> False))"
| "opens_connection e s = False"

text \<open>
  The events of a run in which the client stays passive and no connection gets
  established: socket errors, closures and timers.
\<close>

fun unattended :: "event \<Rightarrow> bool" where
  "unattended (SockError i) = True"
| "unattended (SockClose i wasClean) = True"
| "unattended (TimerFires k) = True"
| "unattended e = False"

definition always_ok :: "string \<Rightarrow> fault option" where
  "always_ok u = None"

text \<open>
  What holds along an unattended run after \<open>connect u\<close>: the endpoint stays \<open>u\<close>, the
  counter stays within the budget, the reconnect timers set so far are exactly those of
  the attempts counted, and every socket but the first comes from one of them.
\<close>

definition reconnect_inv :: "string \<Rightarrow> service \<Rightarrow> bool" where
  "reconnect_inv u s =
     (url s = u
      \<and> reconnectAttempts s \<le> maxReconnectAttempts
      \<and> reconnect_delays (timeouts_set s) =
          map (\<lambda>n. reconnectDelay * n) [1..<Suc (reconnectAttempts s)]
      \<and> list_all (\<lambda>k. sock_url k = u) (sockets s)
      \<and> length (sockets s) + length (reconnect_delays (timers s)) \<le> Suc (reconnectAttempts s))"

text \<open>Concrete runs used below.\<close>

definition three_failures :: "event list" where
  "three_failures =
     [SockClose 0 False, TimerFires 1, SockClose 1 False, TimerFires 2, SockClose 2 False, TimerFires 3]"

definition dropped_then_disconnected :: "event list" where
  "dropped_then_disconnected = [ApiConnect ''ws://h/p'', SockClose 0 False, ApiDisconnect]"

definition connecting_service :: service where
  "connecting_service = connect always_ok ''ws://h/p'' new_service"


text \<open>
  A run in which every retry opens and is dropped again: the connection opens, closes
  uncleanly, the reconnect timer comes due, and so on four times.
\<close>

definition flapping :: "event list" where
  "flapping =
     [SockOpen 0, SockClose 0 False, TimerFires 1,
      SockOpen 1, SockClose 1 False, TimerFires 2,
      SockOpen 2, SockClose 2 False, TimerFires 3,
      SockOpen 3, SockClose 3 False, TimerFires 4]"
section \<open>The decryption engine\<close>

text \<open>
  A string of the source that is handed to the cipher library, or that names a file, is
  a list of UTF-16 code units, as JavaScript has it: such a string can hold a surrogate
  with no partner, and lower-casing can change its length. \<open>js\<close> writes such a string
  from its ASCII text. (The texts of the parser above are looked at as JSON text and by
  their prefix only, and are plain strings.)
\<close>

type_synonym jsstring = "16 word list"

definition js :: "string \<Rightarrow> jsstring" where
  "js s = map of_char s"

text \<open>
  \<open>CryptoService\<close> (crypto.ts). The cipher library is not part of the repository and is
  taken as a parameter: a record of the library functions the code calls. A library
  \<open>WordArray\<close> is the pair of fields the code reads back, \<open>words\<close> (32-bit words) and
  \<open>sigBytes\<close> (the number of significant bytes, a signed number that unpadding
  computes by subtraction).
  \<^item> \<open>WordArray_create\<close>: \<open>WordArray.create\<close> on a typed array or buffer of bytes;
  \<^item> \<open>WordArray_of_words\<close>: \<open>WordArray.create\<close> on an array of words;
  \<^item> \<open>Utf8_parse\<close>: \<open>CryptoJS.enc.Utf8.parse\<close>, which throws on a string that has no
    UTF-8 encoding;
  \<^item> \<open>AES_decrypt ciphertext key iv\<close>: \<open>CryptoJS.AES.decrypt\<close> in CBC mode with PKCS#7
    padding;
  \<^item> \<open>PBKDF2 passphrase salt keySize iterations\<close>: \<open>CryptoJS.PBKDF2\<close>.
\<close>

type_synonym byte = "8 word"

record word_array =
  words :: "32 word list"
  sigBytes :: int

record cryptojs =
  WordArray_create :: "byte list \<Rightarrow> word_array"
  WordArray_of_words :: "32 word list \<Rightarrow> word_array"
  Utf8_parse :: "jsstring \<Rightarrow> fault + word_array"
  AES_decrypt :: "word_array \<Rightarrow> word_array \<Rightarrow> word_array \<Rightarrow> fault + word_array"
  PBKDF2 :: "jsstring \<Rightarrow> word_array \<Rightarrow> nat \<Rightarrow> nat \<Rightarrow> fault + word_array"

text \<open>
  The loop that both decryption functions end with: a \<open>Uint8Array\<close> of \<open>sigBytes\<close>
  bytes (a negative length throws a RangeError), filled byte by byte from the words. A
  word index past the end of \<open>words\<close> reads \<open>undefined\<close>, which the shift turns into 0.
\<close>

definition byte_at :: "32 word list \<Rightarrow> nat \<Rightarrow> byte" where
  "byte_at wds i =
     (let wordIndex = i div 4; byteIndex = i mod 4
      in if wordIndex < length wds
         then ucast (drop_bit (24 - byteIndex * 8) (wds ! wordIndex) AND 0xff)
         else 0)"

definition decrypted_bytes :: "word_array \<Rightarrow> fault + byte list" where
  "decrypted_bytes decrypted =
     (if sigBytes decrypted < 0 then Inl (JsError ''Invalid typed array length'')
      else Inr (map (byte_at (words decrypted)) [0..<nat (sigBytes decrypted)]))"

text \<open>
  \<open>decryptAES\<close>: the body of the \<open>try\<close> block, then the function with its \<open>catch\<close>, which
  turns every fault into \<open>null\<close>. The optional \<open>iv\<close> is used when it is a non-empty
  string; otherwise the first 16 bytes of the data are the IV and the rest the
  ciphertext (\<open>slice\<close> clips at the end of the buffer, as \<open>take\<close> and \<open>drop\<close> do).
\<close>

definition decryptAES_try :: "cryptojs \<Rightarrow> byte list \<Rightarrow> jsstring \<Rightarrow> jsstring option \<Rightarrow> fault + byte list" where
  "decryptAES_try lib encryptedData key iv =
     (let encrypted = WordArray_create lib encryptedData
      in case Utf8_parse lib key of
           Inl e \<Rightarrow> Inl e
         | Inr keyWordArray \<Rightarrow>
             (case (if iv \<noteq> None \<and> iv \<noteq> Some []
                    then (case Utf8_parse lib (the iv) of
                            Inl e \<Rightarrow> Inl e
                          | Inr ivWordArray \<Rightarrow> Inr (ivWordArray, encrypted))
                    else Inr (WordArray_create lib (take 16 encryptedData),
                              WordArray_create lib (drop 16 encryptedData))) of
                Inl e \<Rightarrow> Inl e
              | Inr (ivWordArray, ciphertext) \<Rightarrow>
                  (case AES_decrypt lib ciphertext keyWordArray ivWordArray of
                     Inl e \<Rightarrow> Inl e
                   | Inr decrypted \<Rightarrow> decrypted_bytes decrypted)))"

definition decryptAES :: "cryptojs \<Rightarrow> byte list \<Rightarrow> jsstring \<Rightarrow> jsstring option \<Rightarrow> byte list option" where
  "decryptAES lib encryptedData key iv =
     (case decryptAES_try lib encryptedData key iv of Inr buffer \<Rightarrow> Some buffer | Inl e \<Rightarrow> None)"

text \<open>
  \<open>decryptAESWithSalt\<close>: salt in the first 8 bytes, 12 words of derived material after
  1000 iterations, of which words 0 to 7 are the key and words 8 to 11 the IV.
\<close>

definition decryptAESWithSalt_try :: "cryptojs \<Rightarrow> byte list \<Rightarrow> jsstring \<Rightarrow> fault + byte list" where
  "decryptAESWithSalt_try lib encryptedData passphrase =
     (let salt = take 8 encryptedData; encrypted = drop 8 encryptedData
      in case PBKDF2 lib passphrase (WordArray_create lib salt) 12 1000 of
           Inl e \<Rightarrow> Inl e
         | Inr keyIv \<Rightarrow>
             (let key = WordArray_of_words lib (take 8 (words keyIv));
                  iv = WordArray_of_words lib (take 4 (drop 8 (words keyIv)))
              in case AES_decrypt lib (WordArray_create lib encrypted) key iv of
                   Inl e \<Rightarrow> Inl e
                 | Inr decrypted \<Rightarrow> decrypted_bytes decrypted))"

definition decryptAESWithSalt :: "cryptojs \<Rightarrow> byte list \<Rightarrow> jsstring \<Rightarrow> byte list option" where
  "decryptAESWithSalt lib encryptedData passphrase =
     (case decryptAESWithSalt_try lib encryptedData passphrase of
        Inr buffer \<Rightarrow> Some buffer
      | Inl e \<Rightarrow> None)"

text \<open>
  The plaintext that a word array stands for, in the words of the specification: the
  bytes of the words in big-endian order, cut after \<open>sigBytes\<close> bytes.
\<close>

definition word_bytes :: "32 word \<Rightarrow> byte list" where
  "word_bytes w = [ucast (drop_bit 24 w), ucast (drop_bit 16 w), ucast (drop_bit 8 w), ucast w]"

definition represents :: "word_array \<Rightarrow> byte list \<Rightarrow> bool" where
  "represents wa p =
     (sigBytes wa = int (length p)
      \<and> length p \<le> 4 * length (words wa)
      \<and> take (length p) (concat (map word_bytes (words wa))) = p)"

section \<open>The archive extractor\<close>

text \<open>
  The archive library, \<open>btoa\<close> and \<open>String.prototype.toLowerCase\<close> belong to the host
  and are taken as a parameter. \<open>loadAsync\<close> yields the entries of the archive by name
  or throws; reading an entry as a buffer yields its bytes or throws. \<open>toLowerCase\<close>
  follows the Unicode case mappings: it need not keep the length of a string (it turns
  the one code unit U+0130 into two). An object of the source, with its keys in
  insertion order, is an association list.
\<close>

record zip_object =
  dir :: bool
  async_arraybuffer :: "fault + byte list"

record zip_host =
  loadAsync :: "byte list \<Rightarrow> fault + (jsstring \<times> zip_object) list"
  btoa :: "jsstring \<Rightarrow> jsstring"
  toLowerCase :: "jsstring \<Rightarrow> jsstring"

text \<open>\<open>lastIndexOf\<close> is -1 when the character does not occur.\<close>

fun lastIndexOf_from :: "'a list \<Rightarrow> 'a \<Rightarrow> nat \<Rightarrow> int \<Rightarrow> int" where
  "lastIndexOf_from [] c i found = found"
| "lastIndexOf_from (x # xs) c i found =
     lastIndexOf_from xs c (Suc i) (if x = c then int i else found)"

definition lastIndexOf :: "'a list \<Rightarrow> 'a \<Rightarrow> int" where
  "lastIndexOf s c = lastIndexOf_from s c 0 (- 1)"

text \<open>\<open>substring\<close> with one argument: a negative start counts as 0.\<close>

definition substring :: "'a list \<Rightarrow> int \<Rightarrow> 'a list" where
  "substring s start = drop (nat start) s"

text \<open>The code unit of the full stop.\<close>

definition dot :: "16 word" where
  "dot = 0x2E"

definition imageExtensions :: "jsstring list" where
  "imageExtensions =
     map js [''.jpg'', ''.jpeg'', ''.png'', ''.gif'', ''.bmp'', ''.webp'', ''.svg'']"

text \<open>
  \<open>isImageFile\<close>: the index of the last dot is taken in the name as it is, and the cut
  is made at that index in the lower-cased name.
\<close>

definition isImageFile :: "zip_host \<Rightarrow> jsstring \<Rightarrow> bool" where
  "isImageFile host filename =
     (let ext = substring (toLowerCase host filename) (lastIndexOf filename dot)
      in ext \<in> set imageExtensions)"

definition mimeTypes :: "(jsstring \<times> jsstring) list" where
  "mimeTypes =
     map (\<lambda>(ext, mime). (js ext, js mime))
       [(''.jpg'', ''image/jpeg''), (''.jpeg'', ''image/jpeg''), (''.png'', ''image/png''),
        (''.gif'', ''image/gif''), (''.bmp'', ''image/bmp''), (''.webp'', ''image/webp''),
        (''.svg'', ''image/svg+xml'')]"

text \<open>\<open>getMimeType\<close> is called on names that \<open>isImageFile\<close> accepts.\<close>

definition getMimeType :: "zip_host \<Rightarrow> jsstring \<Rightarrow> jsstring" where
  "getMimeType host filename =
     (let ext = substring (toLowerCase host filename) (lastIndexOf filename dot)
      in case map_of mimeTypes ext of Some m \<Rightarrow> m | None \<Rightarrow> js ''image/jpeg'')"

definition arrayBufferToBase64 :: "zip_host \<Rightarrow> byte list \<Rightarrow> jsstring" where
  "arrayBufferToBase64 host buffer = btoa host (map ucast buffer)"

record DecryptionResult =
  success :: bool
  files :: "(jsstring \<times> jsstring) list option"
  error :: "string option"

text \<open>
  The loop over the entries. An entry that is no directory and that \<open>isImageFile\<close>
  accepts is read; when reading it throws, the inner \<open>catch\<close> logs the fault and the
  loop goes on without the entry.
\<close>

fun process_entries ::
  "zip_host \<Rightarrow> (jsstring \<times> zip_object) list \<Rightarrow> (jsstring \<times> jsstring) list
     \<Rightarrow> (jsstring \<times> jsstring) list" where
  "process_entries host [] fs = fs"
| "process_entries host ((filename, file) # rest) fs =
     process_entries host rest
       (if \<not> dir file \<and> isImageFile host filename
        then (case async_arraybuffer file of
                Inr fileData \<Rightarrow>
                  AList.update filename
                    (js ''data:'' @ getMimeType host filename @ js '';base64,''
                       @ arrayBufferToBase64 host fileData)
                    fs
              | Inl e \<Rightarrow> fs)
        else fs)"

text \<open>
  The second stage of \<open>decryptAndExtractZip\<close>, from \<open>loadAsync\<close> on: the loop, the
  check that a file was kept, and the outer \<open>catch\<close> for what \<open>loadAsync\<close> throws
  (the message of an \<open>Error\<close>, or \<open>Unknown error\<close>).
\<close>

definition extract_zip :: "zip_host \<Rightarrow> byte list \<Rightarrow> DecryptionResult" where
  "extract_zip host decryptedData =
     (case loadAsync host decryptedData of
        Inl e \<Rightarrow>
          \<lparr>success = False, files = None,
           error = Some (case e of JsError m \<Rightarrow> m | NonError \<Rightarrow> ''Unknown error'')\<rparr>
      | Inr entries \<Rightarrow>
          (let fs = process_entries host entries []
           in if length fs = 0
              then \<lparr>success = False, files = None, error = Some ''No image files found in archive''\<rparr>
              else \<lparr>success = True, files = Some fs, error = None\<rparr>))"

text \<open>
  \<open>decryptAndExtractZip\<close>. Its first stage tries the two decryption functions in order;
  the stage is written with the list of the functions it has called, so that a statement
  can say which were attempted. A buffer is truthy even when it is empty, so the second
  function is tried, and the failure returned, on \<open>null\<close> only.
\<close>

datatype strategy = DirectKey | PassphraseSalt

definition decrypt_stage ::
  "cryptojs \<Rightarrow> byte list \<Rightarrow> jsstring \<Rightarrow> jsstring option \<Rightarrow> strategy list \<times> byte list option" where
  "decrypt_stage lib encryptedData key iv =
     (case decryptAES lib encryptedData key iv of
        Some decryptedData \<Rightarrow> ([DirectKey], Some decryptedData)
      | None \<Rightarrow> ([DirectKey, PassphraseSalt], decryptAESWithSalt lib encryptedData key))"

definition decryptAndExtractZip ::
  "cryptojs \<Rightarrow> zip_host \<Rightarrow> byte list \<Rightarrow> jsstring \<Rightarrow> jsstring option \<Rightarrow> DecryptionResult" where
  "decryptAndExtractZip lib host encryptedData key iv =
     (case snd (decrypt_stage lib encryptedData key iv) of
        None \<Rightarrow> \<lparr>success = False, files = None, error = Some ''Failed to decrypt data''\<rparr>
      | Some decryptedData \<Rightarrow> extract_zip host decryptedData)"

text \<open>The entries that the loop keeps: no directory, accepted by \<open>isImageFile\<close>, readable.\<close>

definition kept_entry :: "zip_host \<Rightarrow> jsstring \<times> zip_object \<Rightarrow> bool" where
  "kept_entry host entry =
     (\<not> dir (snd entry) \<and> isImageFile host (fst entry)
      \<and> (case async_arraybuffer (snd entry) of Inr fileData \<Rightarrow> True | Inl e \<Rightarrow> False))"

section \<open>Stand-ins for the libraries\<close>

text \<open>
  Concrete runs need concrete libraries. \<open>toy_cryptojs\<close> does what the cipher library
  does where no cipher is involved: \<open>WordArray.create\<close> packs bytes into big-endian
  words, and \<open>Utf8.parse\<close> encodes a string in UTF-8 and throws \<open>URI malformed\<close> on a
  surrogate with no partner, as the \<open>encodeURIComponent\<close> it is built on does. The key
  derivation parses its passphrase in the same way before anything else, so it throws
  on the same strings. The cipher and the derived material themselves are stand-ins: a
  table of two ciphertexts, the empty plaintext for the empty ciphertext, and on every
  other ciphertext a word array whose \<open>sigBytes\<close> has gone negative, which is how
  unpadding rejects data.
\<close>

fun pack_words :: "byte list \<Rightarrow> 32 word list" where
  "pack_words (a # b # c # d # rest) =
     (push_bit 24 (ucast a) OR push_bit 16 (ucast b) OR push_bit 8 (ucast c) OR ucast d)
       # pack_words rest"
| "pack_words [a, b, c] = [push_bit 24 (ucast a) OR push_bit 16 (ucast b) OR push_bit 8 (ucast c)]"
| "pack_words [a, b] = [push_bit 24 (ucast a) OR push_bit 16 (ucast b)]"
| "pack_words [a] = [push_bit 24 (ucast a)]"
| "pack_words [] = []"

definition pack :: "byte list \<Rightarrow> word_array" where
  "pack bs = \<lparr>words = pack_words bs, sigBytes = int (length bs)\<rparr>"

fun utf16_code_points :: "jsstring \<Rightarrow> fault + nat list" where
  "utf16_code_points [] = Inr []"
| "utf16_code_points [u] =
     (if 0xD800 \<le> u \<and> u \<le> 0xDFFF then Inl (JsError ''URI malformed'') else Inr [unat u])"
| "utf16_code_points (u # l # rest) =
     (if 0xD800 \<le> u \<and> u \<le> 0xDBFF
      then (if 0xDC00 \<le> l \<and> l \<le> 0xDFFF
            then (case utf16_code_points rest of
                    Inl e \<Rightarrow> Inl e
                  | Inr cps \<Rightarrow>
                      Inr ((0x10000 + (unat u - 0xD800) * 0x400 + (unat l - 0xDC00)) # cps))
            else Inl (JsError ''URI malformed''))
      else if 0xDC00 \<le> u \<and> u \<le> 0xDFFF then Inl (JsError ''URI malformed'')
      else (case utf16_code_points (l # rest) of
              Inl e \<Rightarrow> Inl e
            | Inr cps \<Rightarrow> Inr (unat u # cps)))"

definition utf8_bytes :: "nat \<Rightarrow> byte list" where
  "utf8_bytes cp =
     (if cp < 0x80 then [of_nat cp]
      else if cp < 0x800 then [of_nat (0xC0 + cp div 0x40), of_nat (0x80 + cp mod 0x40)]
      else if cp < 0x10000
        then [of_nat (0xE0 + cp div 0x1000), of_nat (0x80 + (cp div 0x40) mod 0x40),
              of_nat (0x80 + cp mod 0x40)]
      else [of_nat (0xF0 + cp div 0x40000), of_nat (0x80 + (cp div 0x1000) mod 0x40),
            of_nat (0x80 + (cp div 0x40) mod 0x40), of_nat (0x80 + cp mod 0x40)])"

definition utf8_parse :: "jsstring \<Rightarrow> fault + word_array" where
  "utf8_parse s =
     (case utf16_code_points s of
        Inl e \<Rightarrow> Inl e
      | Inr cps \<Rightarrow> Inr (pack (concat (map utf8_bytes cps))))"

definition toy_cryptojs :: cryptojs where
  "toy_cryptojs =
     \<lparr>WordArray_create = pack,
      WordArray_of_words = (\<lambda>wds. \<lparr>words = wds, sigBytes = 4 * int (length wds)\<rparr>),
      Utf8_parse = utf8_parse,
      AES_decrypt = (\<lambda>ciphertext key iv.
         if ciphertext = pack [1, 2, 3] \<and> key = pack [107] \<and> iv = pack (replicate 16 0)
           then Inr \<lparr>words = [0x68690A00], sigBytes = 3\<rparr>
         else if ciphertext = pack [4, 5, 6, 7, 8, 9, 10, 11, 12, 13]
                  \<and> key = \<lparr>words = replicate 8 7, sigBytes = 32\<rparr>
                  \<and> iv = \<lparr>words = replicate 4 9, sigBytes = 16\<rparr>
           then Inr \<lparr>words = [0x6F6B0000], sigBytes = 2\<rparr>
         else if sigBytes ciphertext = 0 then Inr \<lparr>words = [], sigBytes = 0\<rparr>
         else Inr \<lparr>words = words ciphertext, sigBytes = sigBytes ciphertext - 255\<rparr>),
      PBKDF2 = (\<lambda>passphrase salt keySize iterations.
         case utf8_parse passphrase of
           Inl e \<Rightarrow> Inl e
         | Inr p \<Rightarrow> Inr \<lparr>words = replicate 8 7 @ replicate 4 9, sigBytes = 48\<rparr>)\<rparr>"

text \<open>
  \<open>toy_zip\<close> knows two archives, and its \<open>btoa\<close> hands the string back as it is. Its
  \<open>toLowerCase\<close> agrees with the host on ASCII, on the Latin-1 range and on U+0130:
  A to Z and the upper-case letters of the Latin-1 range go 32 places up, and U+0130
  becomes the two code units U+0069 U+0307. Every other code unit is left as it is,
  which is a stand-in outside these ranges.
\<close>

definition lower_unit :: "16 word \<Rightarrow> jsstring" where
  "lower_unit u =
     (if (0x41 \<le> u \<and> u \<le> 0x5A) \<or> (0xC0 \<le> u \<and> u \<le> 0xDE \<and> u \<noteq> 0xD7) then [u + 0x20]
      else if u = 0x130 then [0x69, 0x307]
      else [u])"

definition toy_zip :: zip_host where
  "toy_zip =
     \<lparr>loadAsync = (\<lambda>bs.
         if bs = [0x68, 0x69, 0x0A]
           then Inr [(js ''img/'', \<lparr>dir = True, async_arraybuffer = Inr []\<rparr>),
                     (js ''img/a.PNG'', \<lparr>dir = False, async_arraybuffer = Inr [1, 2]\<rparr>),
                     (js ''notes.txt'', \<lparr>dir = False, async_arraybuffer = Inr [3]\<rparr>)]
         else if bs = [0x6F, 0x6B]
           then Inr [(js ''a.png'', \<lparr>dir = False, async_arraybuffer = Inl (JsError ''Corrupted zip'')\<rparr>)]
         else Inl (JsError ''Can not find end of central directory'')),
      btoa = (\<lambda>s. s),
      toLowerCase = (\<lambda>s. concat (map lower_unit s))\<rparr>"

text \<open>
  Inputs of the concrete runs: a key that is one unpaired surrogate, and a file name
  that is U+0130 followed by \<open>.png\<close>.
\<close>

definition lone_surrogate :: jsstring where
  "lone_surrogate = [0xD800]"

definition dotted_I_png :: jsstring where
  "dotted_I_png = 0x130 # js ''.png''"

definition salted_sample :: "byte list" where
  "salted_sample = replicate 8 0 @ [4, 5, 6, 7, 8, 9, 10, 11, 12, 13]"
section \<open>The pipeline orchestrator\<close>

text \<open>
  The \<open>Index\<close> component: its React state, and the handlers it installs on the channel
  manager. Two effects are kept as logs: the titles of the toasts shown, and the calls
  made on the channel manager. An \<open>await\<close> splits a handler in two: the part after it
  takes the awaited outcome as an argument.

  A handler defined in the body of the component closes over the state of the render
  that defined it. The setters of the state are the same in every render; a state
  variable that a handler reads is the value of that render, and a handler that reads
  one takes it as an argument here.
\<close>

datatype AppState =
  App_idle | App_scanning | App_connecting | App_connected | App_decrypting | App_viewing

datatype channel_call = Call_connect "json option" | Call_disconnect

record app =
  appState :: AppState
  connectionStatus :: ConnectionStatus
  images :: "(jsstring \<times> jsstring) list"
  qrData :: "json option"
  isProcessing :: bool
  toasts :: "string list"
  channel_calls :: "channel_call list"


definition toast :: "string \<Rightarrow> app \<Rightarrow> app" where
  "toast t a = a\<lparr>toasts := toasts a @ [t]\<rparr>"


definition onError :: "string \<Rightarrow> app \<Rightarrow> app" where
  "onError e a = toast ''Connection Error'' a"








definition resetApp :: "app \<Rightarrow> app" where
  "resetApp a =
     a\<lparr>channel_calls := channel_calls a @ [Call_disconnect], appState := App_idle,
       images := [], qrData := None, isProcessing := False\<rparr>"


section \<open>Properties of the descriptor parser\<close>

lemma parseQRData_total: "\<exists>r. parseQRData jp s = Inr r"
  by (simp add: parseQRData_def parseQRData_catch_def split: sum.splits option.splits)

lemma parseQRData_parsed:
  "jp s = Inr v \<Longrightarrow> get_prop v ''url'' = Inr u \<Longrightarrow>
     parseQRData jp s = (if truthy u then Inr (Some v) else Inr None)"
  by (simp add: parseQRData_def parseQRData_try_def)

lemma parseQRData_fallback:
  "jp s = Inl e \<or> jp s = Inr JNull \<Longrightarrow> parseQRData jp s = parseQRData_catch s"
  by (auto simp add: parseQRData_def parseQRData_try_def)

lemma get_prop_cases:
  "v = JNull \<or> (\<exists>kvs. v = JObj kvs) \<or> get_prop v p = Inr None"
  by (cases v) simp_all

text \<open>
  Claim C4, as the code has it. The parser never throws: its result is always a value.
  The structured form it recognises is an object whose field \<open>url\<close> is truthy, and such
  an object is returned as it was parsed; an object without a \<open>url\<close> field, whatever
  else it holds, yields \<open>null\<close>. A string that does not parse to an object and has
  neither the prefix \<open>ws://\<close> nor \<open>wss://\<close> yields \<open>null\<close>.
\<close>

theorem parseQRData_descriptor:
  "(\<exists>r. parseQRData jp s = Inr r)
   \<and> (jp s = Inr (JObj kvs) \<and> truthy (map_of kvs ''url'')
        \<longrightarrow> parseQRData jp s = Inr (Some (JObj kvs)))
   \<and> (jp s = Inr (JObj kvs) \<and> map_of kvs ''url'' = None
        \<longrightarrow> parseQRData jp s = Inr None)
   \<and> ((\<forall>kvs. jp s \<noteq> Inr (JObj kvs)) \<and> \<not> startsWith s ''ws://'' \<and> \<not> startsWith s ''wss://''
        \<longrightarrow> parseQRData jp s = Inr None)"
proof (intro conjI impI)
  show "\<exists>r. parseQRData jp s = Inr r" by (rule parseQRData_total)
next
  assume "jp s = Inr (JObj kvs) \<and> truthy (map_of kvs ''url'')"
  then show "parseQRData jp s = Inr (Some (JObj kvs))"
    using parseQRData_parsed [of jp s "JObj kvs" "map_of kvs ''url''"] by simp
next
  assume "jp s = Inr (JObj kvs) \<and> map_of kvs ''url'' = None"
  then show "parseQRData jp s = Inr None"
    using parseQRData_parsed [of jp s "JObj kvs" None] by simp
next
  assume a: "(\<forall>kvs. jp s \<noteq> Inr (JObj kvs)) \<and> \<not> startsWith s ''ws://'' \<and> \<not> startsWith s ''wss://''"
  then have c: "parseQRData_catch s = Inr None" by (simp add: parseQRData_catch_def)
  show "parseQRData jp s = Inr None"
  proof (cases "jp s")
    case (Inl e)
    then show ?thesis using parseQRData_fallback [of jp s e] c by simp
  next
    case (Inr v)
    with a have nobj: "\<forall>kvs. v \<noteq> JObj kvs" by auto
    show ?thesis
    proof (cases "v = JNull")
      case True
      with Inr show ?thesis using parseQRData_fallback [of jp s] c by simp
    next
      case False
      with nobj have "get_prop v ''url'' = Inr None" using get_prop_cases [of v "''url''"] by blast
      with Inr show ?thesis using parseQRData_parsed [of jp s v None] by simp
    qed
  qed
qed

theorem parseQRData_descriptor_witness:
  \<open>sample_JSON_parse ''{"url":"http://h/p","key":"k","n":1}'' =
      Inr (JObj [(''url'', JStr ''http://h/p''), (''key'', JStr ''k''), (''n'', JNum (Finite 1))])
   \<and> truthy (map_of [(''url'', JStr ''http://h/p''), (''key'', JStr ''k''), (''n'', JNum (Finite 1))] ''url'')
   \<and> parseQRData sample_JSON_parse ''{"url":"http://h/p","key":"k","n":1}'' =
      Inr (Some (JObj [(''url'', JStr ''http://h/p''), (''key'', JStr ''k''), (''n'', JNum (Finite 1))]))
   \<and> (\<forall>kvs. sample_JSON_parse ''hello'' \<noteq> Inr (JObj kvs))
   \<and> \<not> startsWith ''hello'' ''ws://'' \<and> \<not> startsWith ''hello'' ''wss://''
   \<and> parseQRData sample_JSON_parse ''hello'' = Inr None\<close>
  using parseQRData_descriptor [of sample_JSON_parse \<open>''{"url":"http://h/p","key":"k","n":1}''\<close>
      "[(''url'', JStr ''http://h/p''), (''key'', JStr ''k''), (''n'', JNum (Finite 1))]"]
    parseQRData_descriptor [of sample_JSON_parse "''hello''" "[]"]
  by (simp add: sample_JSON_parse_def startsWith_def)

text \<open>
  Claim C4 as stated fails on the descriptor that the specification itself uses: the
  text parses to an object with an \<open>endpoint\<close> and a \<open>key\<close> field, and the parser
  returns \<open>null\<close> for it, because it looks for a field named \<open>url\<close>.
\<close>

theorem parseQRData_endpoint_counterexample:
  \<open>sample_JSON_parse ''{"endpoint":"wss://h/p","key":"k"}'' =
      Inr (JObj [(''endpoint'', JStr ''wss://h/p''), (''key'', JStr ''k'')])
   \<and> parseQRData sample_JSON_parse ''{"endpoint":"wss://h/p","key":"k"}'' = Inr None\<close>
  by (simp add: sample_JSON_parse_def parseQRData_def parseQRData_try_def)

text \<open>
  Claim C10. When the text parses, the outcome depends on the parsed value alone: a value
  whose \<open>url\<close> is truthy is returned as it is, with every other field and with no look
  at the scheme of the \<open>url\<close>, and any other value yields \<open>null\<close>, whatever the text
  starts with. The prefix test decides the outcome when parsing throws. The one parsed
  value that also reaches the \<open>catch\<close> block is \<open>null\<close>, on which reading \<open>url\<close> throws;
  the text of a JSON \<open>null\<close> has no such prefix, and the outcome is \<open>null\<close>.
\<close>

theorem parseQRData_json_path:
  "(jp s = Inr v \<and> get_prop v ''url'' = Inr u \<and> truthy u
        \<longrightarrow> parseQRData jp s = Inr (Some v))
   \<and> (jp s = Inr v \<and> get_prop v ''url'' = Inr u \<and> \<not> truthy u
        \<longrightarrow> parseQRData jp s = Inr None)
   \<and> (jp s = Inl e \<longrightarrow> parseQRData jp s = parseQRData_catch s)
   \<and> (jp s = Inr JNull \<and> \<not> startsWith s ''ws://'' \<and> \<not> startsWith s ''wss://''
        \<longrightarrow> parseQRData jp s = Inr None)"
proof (intro conjI impI)
  assume "jp s = Inr v \<and> get_prop v ''url'' = Inr u \<and> truthy u"
  then show "parseQRData jp s = Inr (Some v)"
    using parseQRData_parsed [of jp s v u] by simp
next
  assume "jp s = Inr v \<and> get_prop v ''url'' = Inr u \<and> \<not> truthy u"
  then show "parseQRData jp s = Inr None"
    using parseQRData_parsed [of jp s v u] by simp
next
  assume "jp s = Inl e"
  then show "parseQRData jp s = parseQRData_catch s"
    using parseQRData_fallback [of jp s e] by simp
next
  assume a: "jp s = Inr JNull \<and> \<not> startsWith s ''ws://'' \<and> \<not> startsWith s ''wss://''"
  then have "parseQRData jp s = parseQRData_catch s"
    using parseQRData_fallback [of jp s] by simp
  with a show "parseQRData jp s = Inr None"
    by (simp add: parseQRData_catch_def)
qed

theorem parseQRData_json_path_witness:
  \<open>sample_JSON_parse ''{"url":"http://h/p","key":"k","n":1}'' =
      Inr (JObj [(''url'', JStr ''http://h/p''), (''key'', JStr ''k''), (''n'', JNum (Finite 1))])
   \<and> get_prop (JObj [(''url'', JStr ''http://h/p''), (''key'', JStr ''k''), (''n'', JNum (Finite 1))]) ''url''
        = Inr (Some (JStr ''http://h/p''))
   \<and> truthy (Some (JStr ''http://h/p''))
   \<and> \<not> startsWith ''http://h/p'' ''ws://'' \<and> \<not> startsWith ''http://h/p'' ''wss://''
   \<and> parseQRData sample_JSON_parse ''{"url":"http://h/p","key":"k","n":1}'' =
      Inr (Some (JObj [(''url'', JStr ''http://h/p''), (''key'', JStr ''k''), (''n'', JNum (Finite 1))]))
   \<and> sample_JSON_parse ''{"endpoint":"wss://h/p","key":"k"}'' =
      Inr (JObj [(''endpoint'', JStr ''wss://h/p''), (''key'', JStr ''k'')])
   \<and> get_prop (JObj [(''endpoint'', JStr ''wss://h/p''), (''key'', JStr ''k'')]) ''url'' = Inr None
   \<and> \<not> truthy None
   \<and> parseQRData sample_JSON_parse ''{"endpoint":"wss://h/p","key":"k"}'' = Inr None
   \<and> sample_JSON_parse ''ws://h/p'' = Inl (JsError ''Unexpected token'')
   \<and> parseQRData sample_JSON_parse ''ws://h/p'' = Inr (Some (JObj [(''url'', JStr ''ws://h/p'')]))
   \<and> sample_JSON_parse ''null'' = Inr JNull
   \<and> \<not> startsWith ''null'' ''ws://'' \<and> \<not> startsWith ''null'' ''wss://''
   \<and> parseQRData sample_JSON_parse ''null'' = Inr None\<close>
  using
    parseQRData_json_path [of sample_JSON_parse \<open>''{"url":"http://h/p","key":"k","n":1}''\<close>
      "JObj [(''url'', JStr ''http://h/p''), (''key'', JStr ''k''), (''n'', JNum (Finite 1))]"
      "Some (JStr ''http://h/p'')"]
    parseQRData_json_path [of sample_JSON_parse \<open>''{"endpoint":"wss://h/p","key":"k"}''\<close>
      "JObj [(''endpoint'', JStr ''wss://h/p''), (''key'', JStr ''k'')]" None]
    parseQRData_json_path [of sample_JSON_parse "''ws://h/p''" _ _ "JsError ''Unexpected token''"]
    parseQRData_json_path [of sample_JSON_parse "''null''"]
  by (simp add: sample_JSON_parse_def startsWith_def parseQRData_catch_def)

section \<open>Properties of the channel manager\<close>

lemma reconnect_delays_append:
  "reconnect_delays (xs @ ys) = reconnect_delays xs @ reconnect_delays ys"
  by (induction xs rule: reconnect_delays.induct) simp_all

lemma reconnect_delays_remove:
  assumes "k < length ts"
  shows "length (reconnect_delays (take k ts @ drop (Suc k) ts)) =
         length (reconnect_delays ts) - (case ts ! k of ReconnectTimer d \<Rightarrow> 1 | ConnectionTimeout d p \<Rightarrow> 0)"
proof -
  from assms have "ts = take k ts @ ts ! k # drop (Suc k) ts"
    by (rule id_take_nth_drop)
  then have "reconnect_delays ts =
      reconnect_delays (take k ts) @ reconnect_delays (ts ! k # drop (Suc k) ts)"
    by (metis reconnect_delays_append)
  then show ?thesis
    by (cases "ts ! k") (simp_all add: reconnect_delays_append)
qed

lemma reconnect_delays_remove_pos:
  assumes "k < length ts" "ts ! k = ReconnectTimer d"
  shows "0 < length (reconnect_delays ts)"
proof -
  from assms(1) have "ts = take k ts @ ts ! k # drop (Suc k) ts"
    by (rule id_take_nth_drop)
  then have "reconnect_delays ts =
      reconnect_delays (take k ts) @ reconnect_delays (ts ! k # drop (Suc k) ts)"
    by (metis reconnect_delays_append)
  with assms(2) show ?thesis by simp
qed

lemma inv_connect:
  assumes "url s = u" "reconnectAttempts s \<le> maxReconnectAttempts"
    "reconnect_delays (timeouts_set s) =
       map (\<lambda>n. reconnectDelay * n) [1..<Suc (reconnectAttempts s)]"
    "list_all (\<lambda>k. sock_url k = u) (sockets s)"
    "length (sockets s) + length (reconnect_delays (timers s)) \<le> reconnectAttempts s"
  shows "reconnect_inv u (connect W u s)"
  using assms
  by (simp add: reconnect_inv_def connect_def setTimeout_def Let_def reconnect_delays_append
      split: option.splits)

lemma inv_new: "reconnect_inv u (connect W u new_service)"
  by (simp add: reconnect_inv_def connect_def new_service_def setTimeout_def Let_def
        maxReconnectAttempts_def split: option.splits)

lemma inv_onerror: "reconnect_inv u s \<Longrightarrow> reconnect_inv u (onerror i s)"
  by (simp add: reconnect_inv_def onerror_def)

lemma list_all_update:
  "list_all P xs \<Longrightarrow> P x \<Longrightarrow> list_all P (xs[i := x])"
  by (induction xs arbitrary: i) (auto split: nat.splits)

lemma inv_onclose:
  assumes "reconnect_inv u s" "i < length (sockets s)"
  shows "reconnect_inv u (onclose i c (s\<lparr>sockets := (sockets s)[i := (sockets s ! i)\<lparr>readyState := CLOSED\<rparr>]\<rparr>))"
proof -
  from assms have "sock_url (sockets s ! i) = u"
    by (simp add: reconnect_inv_def list_all_length)
  with assms(1) have a: "list_all (\<lambda>k. sock_url k = u) ((sockets s)[i := (sockets s ! i)\<lparr>readyState := CLOSED\<rparr>])"
    by (simp add: reconnect_inv_def list_all_update)
  with assms(1) show ?thesis
    by (auto simp add: reconnect_inv_def onclose_def reconnect_def setTimeout_def Let_def
        reconnect_delays_append maxReconnectAttempts_def)
qed

lemma inv_socket_close:
  "list_all (\<lambda>k. sock_url k = u) socks \<Longrightarrow> list_all (\<lambda>k. sock_url k = u) (socket_close i socks)"
  by (simp add: socket_close_def list_all_length nth_list_update)

lemma length_socket_close: "length (socket_close i socks) = length socks"
  by (simp add: socket_close_def)

lemma inv_fire_timer:
  assumes "reconnect_inv u s"
  shows "reconnect_inv u (fire_timer W k s)"
proof (cases "k < length (timers s)")
  case False
  with assms show ?thesis by (simp add: fire_timer_def)
next
  case True
  show ?thesis
  proof (cases "timers s ! k")
    case (ConnectionTimeout d p)
    with True assms show ?thesis
      using reconnect_delays_remove [of k "timers s"]
      by (auto simp add: fire_timer_def connection_timeout_def reconnect_inv_def Let_def
          inv_socket_close length_socket_close split: option.splits)
  next
    case (ReconnectTimer d)
    let ?s1 = "s\<lparr>timers := take k (timers s) @ drop (Suc k) (timers s)\<rparr>"
    from True ReconnectTimer
    have eq: "length (reconnect_delays (take k (timers s) @ drop (Suc k) (timers s))) =
        length (reconnect_delays (timers s)) - 1"
      using reconnect_delays_remove [of k "timers s"] by simp
    from True ReconnectTimer have pos: "0 < length (reconnect_delays (timers s))"
      by (rule reconnect_delays_remove_pos)
    from assms have le: "length (sockets s) + length (reconnect_delays (timers s))
        \<le> Suc (reconnectAttempts s)"
      by (simp add: reconnect_inv_def)
    from le eq pos
    have "length (sockets s) + length (reconnect_delays (take k (timers s) @ drop (Suc k) (timers s)))
        \<le> reconnectAttempts s"
      by linarith
    then have "length (sockets ?s1) + length (reconnect_delays (timers ?s1))
        \<le> reconnectAttempts ?s1"
      by simp
    with assms have "reconnect_inv u (connect W u ?s1)"
      by (intro inv_connect) (simp_all add: reconnect_inv_def)
    moreover from assms have "url ?s1 = u" "reconnectAttempts ?s1 \<le> maxReconnectAttempts"
      by (simp_all add: reconnect_inv_def)
    ultimately have "reconnect_inv u (reconnect_fires W ?s1)"
      by (simp add: reconnect_fires_def)
    with True ReconnectTimer show ?thesis
      by (simp add: fire_timer_def)
  qed
qed

lemma inv_step:
  "unattended e \<Longrightarrow> reconnect_inv u s \<Longrightarrow> reconnect_inv u (step W e s)"
  by (cases e) (simp_all add: inv_onerror inv_onclose inv_fire_timer)

lemma inv_run:
  "list_all unattended es \<Longrightarrow> reconnect_inv u s \<Longrightarrow> reconnect_inv u (run W es s)"
  by (induction es arbitrary: s) (simp_all add: inv_step)

lemma exhausted_close:
  assumes "reconnectAttempts s = 3"
  shows "timers (step W (SockClose i False) s) = timers s
       \<and> timeouts_set (step W (SockClose i False) s) = timeouts_set s
       \<and> length (sockets (step W (SockClose i False) s)) = length (sockets s)
       \<and> (i < length (sockets s) \<and> readyState (sockets s ! i) \<noteq> CLOSED
            \<longrightarrow> status (step W (SockClose i False) s) = Disconnected)"
  using assms by (simp add: onclose_def maxReconnectAttempts_def)

lemma inv_opened: "reconnect_inv u (step W (SockOpen 0) (connect W u new_service))"
  by (simp add: reconnect_inv_def connect_def new_service_def setTimeout_def onopen_def Let_def
        maxReconnectAttempts_def split: option.splits)

lemma unclean_close_schedules:
  assumes "i < length (sockets s)" "readyState (sockets s ! i) \<noteq> CLOSED" "reconnectAttempts s < 3"
  shows "reconnectAttempts (step W (SockClose i False) s) = reconnectAttempts s + 1"
    and "timers (step W (SockClose i False) s) =
          timers s @ [ReconnectTimer (1000 * (reconnectAttempts s + 1))]"
  using assms
  by (simp_all add: onclose_def reconnect_def setTimeout_def maxReconnectAttempts_def
      reconnectDelay_def Let_def)

lemma reconnect_timer_connects:
  assumes "k < length (timers s)" "timers s ! k = ReconnectTimer d" "reconnectAttempts s \<le> 3"
    "W (url s) = None"
  shows "sockets (step W (TimerFires k) s) =
      sockets s @ [\<lparr>sock_url = url s, readyState = CONNECTING, sock_promise = length (promises s)\<rparr>]"
  using assms
  by (simp add: fire_timer_def reconnect_fires_def connect_def setTimeout_def
      maxReconnectAttempts_def Let_def)

lemma open_resets:
  assumes "i < length (sockets s)" "readyState (sockets s ! i) = CONNECTING"
  shows "reconnectAttempts (step W (SockOpen i) s) = 0"
  using assms by (simp add: onopen_def)

lemma only_open_lowers:
  assumes "reconnectAttempts (step W e s) < reconnectAttempts s"
  shows "\<exists>i. e = SockOpen i"
proof (cases e)
  case (ApiConnect u)
  with assms show ?thesis
    by (simp add: connect_def setTimeout_def Let_def split: option.splits)
next
  case ApiDisconnect
  with assms show ?thesis by (simp add: disconnect_def split: option.splits)
next
  case (SockOpen i)
  then show ?thesis by simp
next
  case (SockError i)
  with assms show ?thesis by (simp add: onerror_def split: if_splits)
next
  case (SockClose i c)
  with assms show ?thesis
    by (simp add: onclose_def reconnect_def setTimeout_def Let_def split: if_splits)
next
  case (TimerFires k)
  with assms show ?thesis
    by (cases "timers s ! k")
       (simp_all add: fire_timer_def connection_timeout_def reconnect_fires_def connect_def
          setTimeout_def Let_def split: if_splits option.splits)
qed

text \<open>
  Claim C5, as the code has it. Start from a fresh connection: \<open>connect u\<close> on a new
  service, whether the connection has just been requested or has opened. Take any run
  from there in which the client makes no call and no connection opens any more: socket
  errors, closures and timers, in any order and number. Then at most 3 reconnects are
  ever scheduled, the n-th with a delay of 1000 * n milliseconds, every socket created
  is for the endpoint \<open>u\<close>, and at most 4 sockets exist (the first and three retries).
  Once the counter stands at 3, a further unclean closure sets no timer and creates no
  socket, and it leaves the status at \<open>Disconnected\<close>.

  In any state, an unclean closure with the counter below 3 adds one to the counter and
  schedules one reconnect, with a delay of 1000 times the new count; that timer, when it
  comes due, opens a socket for the stored url; and a connection that opens sets the
  counter to zero, so that the budget and the delays start again.
\<close>

theorem reconnect_budget:
  assumes "list_all unattended es"
    and "s0 = connect W u new_service \<or> s0 = step W (SockOpen 0) (connect W u new_service)"
  shows "reconnectAttempts (run W es s0) \<le> 3
     \<and> reconnect_delays (timeouts_set (run W es s0)) =
         map (\<lambda>n. 1000 * n) [1..<Suc (reconnectAttempts (run W es s0))]
     \<and> length (reconnect_delays (timeouts_set (run W es s0))) \<le> 3
     \<and> list_all (\<lambda>k. sock_url k = u) (sockets (run W es s0))
     \<and> length (sockets (run W es s0)) \<le> 4
     \<and> (reconnectAttempts (run W es s0) = 3 \<longrightarrow>
          (\<forall>i. timers (step W (SockClose i False) (run W es s0)) = timers (run W es s0)
             \<and> timeouts_set (step W (SockClose i False) (run W es s0)) = timeouts_set (run W es s0)
             \<and> length (sockets (step W (SockClose i False) (run W es s0))) =
                 length (sockets (run W es s0))
             \<and> (i < length (sockets (run W es s0))
                  \<and> readyState (sockets (run W es s0) ! i) \<noteq> CLOSED
                \<longrightarrow> status (step W (SockClose i False) (run W es s0)) = Disconnected)))
     \<and> (i < length (sockets s) \<and> readyState (sockets s ! i) \<noteq> CLOSED \<and> reconnectAttempts s < 3
          \<longrightarrow> reconnectAttempts (step W (SockClose i False) s) = reconnectAttempts s + 1
            \<and> timers (step W (SockClose i False) s) =
                timers s @ [ReconnectTimer (1000 * (reconnectAttempts s + 1))])
     \<and> (k < length (timers s) \<and> timers s ! k = ReconnectTimer d \<and> reconnectAttempts s \<le> 3
          \<and> W (url s) = None
          \<longrightarrow> sockets (step W (TimerFires k) s) =
              sockets s @ [\<lparr>sock_url = url s, readyState = CONNECTING,
                            sock_promise = length (promises s)\<rparr>])
     \<and> (i < length (sockets s) \<and> readyState (sockets s ! i) = CONNECTING
          \<longrightarrow> reconnectAttempts (step W (SockOpen i) s) = 0)"
proof -
  let ?s = "run W es s0"
  from assms(2) have "reconnect_inv u s0"
    using inv_new [of u W] inv_opened [of u W] by blast
  with assms(1) have inv: "reconnect_inv u ?s"
    by (rule inv_run)
  then have a: "reconnectAttempts ?s \<le> 3"
    and d: "reconnect_delays (timeouts_set ?s) = map (\<lambda>n. 1000 * n) [1..<Suc (reconnectAttempts ?s)]"
    and l: "list_all (\<lambda>k. sock_url k = u) (sockets ?s)"
    and n: "length (sockets ?s) \<le> Suc (reconnectAttempts ?s)"
    by (simp_all add: reconnect_inv_def maxReconnectAttempts_def reconnectDelay_def)
  from d have "length (reconnect_delays (timeouts_set ?s)) = reconnectAttempts ?s"
    by simp
  with a have d3: "length (reconnect_delays (timeouts_set ?s)) \<le> 3" by simp
  from a n have n4: "length (sockets ?s) \<le> 4" by simp
  have x: "reconnectAttempts ?s = 3 \<longrightarrow>
          (\<forall>i. timers (step W (SockClose i False) ?s) = timers ?s
             \<and> timeouts_set (step W (SockClose i False) ?s) = timeouts_set ?s
             \<and> length (sockets (step W (SockClose i False) ?s)) = length (sockets ?s)
             \<and> (i < length (sockets ?s) \<and> readyState (sockets ?s ! i) \<noteq> CLOSED
                \<longrightarrow> status (step W (SockClose i False) ?s) = Disconnected))"
    using exhausted_close [of ?s W] by blast
  have c: "i < length (sockets s) \<and> readyState (sockets s ! i) \<noteq> CLOSED \<and> reconnectAttempts s < 3
          \<longrightarrow> reconnectAttempts (step W (SockClose i False) s) = reconnectAttempts s + 1
            \<and> timers (step W (SockClose i False) s) =
                timers s @ [ReconnectTimer (1000 * (reconnectAttempts s + 1))]"
    using unclean_close_schedules [of i s W] by blast
  have f: "k < length (timers s) \<and> timers s ! k = ReconnectTimer d \<and> reconnectAttempts s \<le> 3
          \<and> W (url s) = None
          \<longrightarrow> sockets (step W (TimerFires k) s) =
              sockets s @ [\<lparr>sock_url = url s, readyState = CONNECTING,
                            sock_promise = length (promises s)\<rparr>]"
    using reconnect_timer_connects [of k s d W] by blast
  have r: "i < length (sockets s) \<and> readyState (sockets s ! i) = CONNECTING
          \<longrightarrow> reconnectAttempts (step W (SockOpen i) s) = 0"
    using open_resets [of i s W] by blast
  show ?thesis
    by (intro conjI a d d3 l n4 x c f r)
qed

lemma three_failures_run:
  "run always_ok three_failures (step always_ok (SockOpen 0) connecting_service) =
     \<lparr>ws = Some 3, url = ''ws://h/p'', reconnectAttempts = 3,
      sockets = [\<lparr>sock_url = ''ws://h/p'', readyState = CLOSED, sock_promise = 0\<rparr>,
                 \<lparr>sock_url = ''ws://h/p'', readyState = CLOSED, sock_promise = 1\<rparr>,
                 \<lparr>sock_url = ''ws://h/p'', readyState = CLOSED, sock_promise = 2\<rparr>,
                 \<lparr>sock_url = ''ws://h/p'', readyState = CONNECTING, sock_promise = 3\<rparr>],
      promises = [Resolved, Pending, Pending, Pending],
      timers = [ConnectionTimeout 10000 0, ConnectionTimeout 10000 1, ConnectionTimeout 10000 2,
                ConnectionTimeout 10000 3],
      timeouts_set = [ConnectionTimeout 10000 0, ReconnectTimer 1000, ConnectionTimeout 10000 1,
                      ReconnectTimer 2000, ConnectionTimeout 10000 2, ReconnectTimer 3000,
                      ConnectionTimeout 10000 3],
      status = Connecting, errors = []\<rparr>"
  by (simp add: three_failures_def connecting_service_def connect_def new_service_def
      always_ok_def setTimeout_def onopen_def settle_def onclose_def reconnect_def fire_timer_def
      reconnect_fires_def maxReconnectAttempts_def reconnectDelay_def Let_def)

theorem reconnect_budget_witness:
  "list_all unattended three_failures
   \<and> reconnectAttempts (run always_ok three_failures
        (step always_ok (SockOpen 0) (connect always_ok ''ws://h/p'' new_service))) = 3
   \<and> reconnect_delays (timeouts_set (run always_ok three_failures
        (step always_ok (SockOpen 0) (connect always_ok ''ws://h/p'' new_service)))) = [1000, 2000, 3000]
   \<and> length (sockets (run always_ok three_failures
        (step always_ok (SockOpen 0) (connect always_ok ''ws://h/p'' new_service)))) = 4
   \<and> readyState (sockets (run always_ok three_failures
        (step always_ok (SockOpen 0) (connect always_ok ''ws://h/p'' new_service))) ! 3) = CONNECTING
   \<and> timers (step always_ok (SockClose 3 False) (run always_ok three_failures
        (step always_ok (SockOpen 0) (connect always_ok ''ws://h/p'' new_service)))) =
       timers (run always_ok three_failures
        (step always_ok (SockOpen 0) (connect always_ok ''ws://h/p'' new_service)))
   \<and> status (step always_ok (SockClose 3 False) (run always_ok three_failures
        (step always_ok (SockOpen 0) (connect always_ok ''ws://h/p'' new_service)))) = Disconnected
   \<and> 0 < length (sockets connecting_service)
   \<and> readyState (sockets connecting_service ! 0) = CONNECTING
   \<and> reconnectAttempts connecting_service < 3
   \<and> timers (step always_ok (SockClose 0 False) connecting_service) =
        timers connecting_service @ [ReconnectTimer (1000 * (reconnectAttempts connecting_service + 1))]
   \<and> 1 < length (timers (step always_ok (SockClose 0 False) connecting_service))
   \<and> timers (step always_ok (SockClose 0 False) connecting_service) ! 1 = ReconnectTimer 1000
   \<and> always_ok (url (step always_ok (SockClose 0 False) connecting_service)) = None
   \<and> length (sockets (step always_ok (TimerFires 1)
        (step always_ok (SockClose 0 False) connecting_service))) = 2
   \<and> reconnectAttempts (step always_ok (SockOpen 0) connecting_service) = 0"
proof -
  let ?s0 = "step always_ok (SockOpen 0) (connect always_ok ''ws://h/p'' new_service)"
  let ?s = "run always_ok three_failures ?s0"
  let ?c = "step always_ok (SockClose 0 False) connecting_service"
  have u: "list_all unattended three_failures" by (simp add: three_failures_def)
  have e: "?s = \<lparr>ws = Some 3, url = ''ws://h/p'', reconnectAttempts = 3,
      sockets = [\<lparr>sock_url = ''ws://h/p'', readyState = CLOSED, sock_promise = 0\<rparr>,
                 \<lparr>sock_url = ''ws://h/p'', readyState = CLOSED, sock_promise = 1\<rparr>,
                 \<lparr>sock_url = ''ws://h/p'', readyState = CLOSED, sock_promise = 2\<rparr>,
                 \<lparr>sock_url = ''ws://h/p'', readyState = CONNECTING, sock_promise = 3\<rparr>],
      promises = [Resolved, Pending, Pending, Pending],
      timers = [ConnectionTimeout 10000 0, ConnectionTimeout 10000 1, ConnectionTimeout 10000 2,
                ConnectionTimeout 10000 3],
      timeouts_set = [ConnectionTimeout 10000 0, ReconnectTimer 1000, ConnectionTimeout 10000 1,
                      ReconnectTimer 2000, ConnectionTimeout 10000 2, ReconnectTimer 3000,
                      ConnectionTimeout 10000 3],
      status = Connecting, errors = []\<rparr>"
    using three_failures_run by (simp add: connecting_service_def)
  have cs: "connecting_service =
      \<lparr>ws = Some 0, url = ''ws://h/p'', reconnectAttempts = 0,
       sockets = [\<lparr>sock_url = ''ws://h/p'', readyState = CONNECTING, sock_promise = 0\<rparr>],
       promises = [Pending], timers = [ConnectionTimeout 10000 0],
       timeouts_set = [ConnectionTimeout 10000 0], status = Connecting, errors = []\<rparr>"
    by (simp add: connecting_service_def connect_def new_service_def always_ok_def setTimeout_def)
  have h: "0 < length (sockets connecting_service)"
    "readyState (sockets connecting_service ! 0) = CONNECTING"
    "reconnectAttempts connecting_service < 3"
    by (simp_all add: cs)
  have hn: "readyState (sockets connecting_service ! 0) \<noteq> CLOSED"
    by (simp add: cs)
  note t = reconnect_budget [where es = three_failures and W = always_ok
      and u = "''ws://h/p''" and s = connecting_service and i = 0, OF u disjI2 [OF refl]]
  have r:
    "reconnect_delays (timeouts_set ?s) = map (\<lambda>n. 1000 * n) [1..<Suc (reconnectAttempts ?s)]"
    "reconnectAttempts ?s = 3 \<longrightarrow>
       (\<forall>i. timers (step always_ok (SockClose i False) ?s) = timers ?s
          \<and> timeouts_set (step always_ok (SockClose i False) ?s) = timeouts_set ?s
          \<and> length (sockets (step always_ok (SockClose i False) ?s)) = length (sockets ?s)
          \<and> (i < length (sockets ?s) \<and> readyState (sockets ?s ! i) \<noteq> CLOSED
             \<longrightarrow> status (step always_ok (SockClose i False) ?s) = Disconnected))"
    "timers ?c = timers connecting_service @ [ReconnectTimer (1000 * (reconnectAttempts connecting_service + 1))]"
    "reconnectAttempts (step always_ok (SockOpen 0) connecting_service) = 0"
  proof -
    show "reconnect_delays (timeouts_set ?s) = map (\<lambda>n. 1000 * n) [1..<Suc (reconnectAttempts ?s)]"
      by (rule t [THEN conjunct2, THEN conjunct1])
    show "reconnectAttempts ?s = 3 \<longrightarrow>
       (\<forall>i. timers (step always_ok (SockClose i False) ?s) = timers ?s
          \<and> timeouts_set (step always_ok (SockClose i False) ?s) = timeouts_set ?s
          \<and> length (sockets (step always_ok (SockClose i False) ?s)) = length (sockets ?s)
          \<and> (i < length (sockets ?s) \<and> readyState (sockets ?s ! i) \<noteq> CLOSED
             \<longrightarrow> status (step always_ok (SockClose i False) ?s) = Disconnected))"
      by (rule t [THEN conjunct2, THEN conjunct2, THEN conjunct2, THEN conjunct2, THEN conjunct2,
            THEN conjunct1])
    have "reconnectAttempts (step always_ok (SockClose 0 False) connecting_service) =
            reconnectAttempts connecting_service + 1
          \<and> timers ?c = timers connecting_service @
              [ReconnectTimer (1000 * (reconnectAttempts connecting_service + 1))]"
      by (rule t [THEN conjunct2, THEN conjunct2, THEN conjunct2, THEN conjunct2, THEN conjunct2,
            THEN conjunct2, THEN conjunct1, THEN mp]) (intro conjI h(1) hn h(3))
    then show "timers ?c = timers connecting_service @
        [ReconnectTimer (1000 * (reconnectAttempts connecting_service + 1))]"
      by (rule conjunct2)
    show "reconnectAttempts (step always_ok (SockOpen 0) connecting_service) = 0"
      by (rule t [THEN conjunct2, THEN conjunct2, THEN conjunct2, THEN conjunct2, THEN conjunct2,
            THEN conjunct2, THEN conjunct2, THEN conjunct2, THEN mp]) (intro conjI h(1,2))
  qed
  have a3: "reconnectAttempts ?s = 3" and n4: "length (sockets ?s) = 4"
    and rs: "readyState (sockets ?s ! 3) = CONNECTING"
    by (simp_all only: e) simp_all
  from r(1) a3 have dl: "reconnect_delays (timeouts_set ?s) = [1000, 2000, 3000]"
    by (simp add: upt_rec)
  have lt: "3 < length (sockets ?s)" using n4 by linarith
  have nc: "readyState (sockets ?s ! 3) \<noteq> CLOSED" by (simp only: rs) simp
  note x3 = r(2) [THEN mp, OF a3, THEN spec, of 3]
  have fin: "timers (step always_ok (SockClose 3 False) ?s) = timers ?s"
    "status (step always_ok (SockClose 3 False) ?s) = Disconnected"
  proof -
    show "timers (step always_ok (SockClose 3 False) ?s) = timers ?s"
      by (rule x3 [THEN conjunct1])
    show "status (step always_ok (SockClose 3 False) ?s) = Disconnected"
      by (rule x3 [THEN conjunct2, THEN conjunct2, THEN conjunct2, THEN mp]) (intro conjI lt nc)
  qed
  have c: "?c =
      \<lparr>ws = Some 0, url = ''ws://h/p'', reconnectAttempts = 1,
       sockets = [\<lparr>sock_url = ''ws://h/p'', readyState = CLOSED, sock_promise = 0\<rparr>],
       promises = [Pending], timers = [ConnectionTimeout 10000 0, ReconnectTimer 1000],
       timeouts_set = [ConnectionTimeout 10000 0, ReconnectTimer 1000], status = Disconnected,
       errors = []\<rparr>"
    by (simp add: cs onclose_def reconnect_def setTimeout_def maxReconnectAttempts_def
        reconnectDelay_def Let_def)
  have hc: "1 < length (timers ?c)" "timers ?c ! 1 = ReconnectTimer 1000"
    "always_ok (url ?c) = None" "reconnectAttempts ?c \<le> 3"
    by (simp_all only: c) (simp_all add: always_ok_def)
  note t2 = reconnect_budget [where es = three_failures and W = always_ok
      and u = "''ws://h/p''" and s = ?c and k = 1 and d = 1000, OF u disjI2 [OF refl]]
  have "sockets (step always_ok (TimerFires 1) ?c) =
      sockets ?c @ [\<lparr>sock_url = url ?c, readyState = CONNECTING, sock_promise = length (promises ?c)\<rparr>]"
    by (rule t2 [THEN conjunct2, THEN conjunct2, THEN conjunct2, THEN conjunct2, THEN conjunct2,
          THEN conjunct2, THEN conjunct2, THEN conjunct1, THEN mp]) (intro conjI hc(1,2,4,3))
  then have two: "length (sockets (step always_ok (TimerFires 1) ?c)) = 2"
    by (simp only: c) simp
  show ?thesis
    by (intro conjI u a3 dl n4 rs fin h r(3) hc(1,2,3) two r(4))
qed

text \<open>
  Claim C5 as stated fails on a run of unclean closures in which every retry opens
  before it is dropped: each open sets the counter back to zero, so a fourth reconnect
  takes place, and every reconnect waits 1000 ms.
\<close>

theorem flapping_counterexample:
  "reconnect_delays (timeouts_set (run always_ok flapping connecting_service))
      = [1000, 1000, 1000, 1000]
   \<and> length (sockets (run always_ok flapping connecting_service)) = 5"
  by (simp add: flapping_def connecting_service_def connect_def new_service_def always_ok_def
      setTimeout_def onopen_def settle_def onclose_def reconnect_def fire_timer_def
      reconnect_fires_def maxReconnectAttempts_def reconnectDelay_def Let_def)

text \<open>
  Claim C6, as the code has it. \<open>disconnect\<close> asks the socket it references to close,
  drops the reference and reports \<open>Disconnected\<close>. It sets no timer, and it leaves the
  pending timers and the attempt counter as they were. The closure that follows
  schedules no reconnect and leaves the counter alone when it is clean; when it is
  unclean and the counter is below 3, as after a disconnect from a socket that was
  still connecting or open, it schedules a reconnect like any other unclean closure.
  A connection that opens sets the counter to zero, and no other event lowers it.
\<close>

theorem disconnect_effect:
  "ws (disconnect s) = None
   \<and> status (disconnect s) = Disconnected
   \<and> reconnectAttempts (disconnect s) = reconnectAttempts s
   \<and> timers (disconnect s) = timers s
   \<and> timeouts_set (disconnect s) = timeouts_set s
   \<and> url (disconnect s) = url s
   \<and> promises (disconnect s) = promises s
   \<and> sockets (disconnect s) = (case ws s of None \<Rightarrow> sockets s | Some i \<Rightarrow> socket_close i (sockets s))
   \<and> timers (step W (SockClose i True) s) = timers s
   \<and> reconnectAttempts (step W (SockClose i True) s) = reconnectAttempts s
   \<and> (ws s = Some i \<and> i < length (sockets s) \<and> readyState (sockets s ! i) \<noteq> CLOSED
        \<and> reconnectAttempts s < 3
      \<longrightarrow> timers (step W (SockClose i False) (disconnect s)) =
            timers s @ [ReconnectTimer (1000 * (reconnectAttempts s + 1))])
   \<and> (i < length (sockets s) \<and> readyState (sockets s ! i) = CONNECTING
      \<longrightarrow> reconnectAttempts (step W (SockOpen i) s) = 0)
   \<and> (reconnectAttempts (step W e s) < reconnectAttempts s \<longrightarrow> (\<exists>j. e = SockOpen j))"
proof (intro conjI impI)
  assume a: "ws s = Some i \<and> i < length (sockets s) \<and> readyState (sockets s ! i) \<noteq> CLOSED
      \<and> reconnectAttempts s < 3"
  then have "i < length (sockets (disconnect s))"
    and "readyState (sockets (disconnect s) ! i) \<noteq> CLOSED"
    and "reconnectAttempts (disconnect s) < 3"
    by (simp_all add: disconnect_def socket_close_def)
  then have "timers (step W (SockClose i False) (disconnect s)) =
      timers (disconnect s) @ [ReconnectTimer (1000 * (reconnectAttempts (disconnect s) + 1))]"
    by (rule unclean_close_schedules)
  with a show "timers (step W (SockClose i False) (disconnect s)) =
      timers s @ [ReconnectTimer (1000 * (reconnectAttempts s + 1))]"
    by (simp add: disconnect_def)
next
  assume "i < length (sockets s) \<and> readyState (sockets s ! i) = CONNECTING"
  then show "reconnectAttempts (step W (SockOpen i) s) = 0"
    using open_resets [of i s W] by blast
next
  assume "reconnectAttempts (step W e s) < reconnectAttempts s"
  then show "\<exists>j. e = SockOpen j" by (rule only_open_lowers)
qed (simp_all add: disconnect_def onclose_def split: option.splits)

theorem disconnect_effect_witness:
  "ws connecting_service = Some 0
   \<and> 0 < length (sockets connecting_service)
   \<and> readyState (sockets connecting_service ! 0) \<noteq> CLOSED
   \<and> reconnectAttempts connecting_service < 3
   \<and> timers (step always_ok (SockClose 0 False) (disconnect connecting_service)) =
        timers connecting_service @ [ReconnectTimer (1000 * (reconnectAttempts connecting_service + 1))]
   \<and> readyState (sockets connecting_service ! 0) = CONNECTING
   \<and> reconnectAttempts (step always_ok (SockOpen 0) connecting_service) = 0
   \<and> reconnectAttempts (step always_ok (SockOpen 1)
        (run always_ok [SockClose 0 False, TimerFires 1] connecting_service))
       < reconnectAttempts (run always_ok [SockClose 0 False, TimerFires 1] connecting_service)
   \<and> (\<exists>j. SockOpen 1 = SockOpen j)"
proof -
  have cs: "connecting_service =
      \<lparr>ws = Some 0, url = ''ws://h/p'', reconnectAttempts = 0,
       sockets = [\<lparr>sock_url = ''ws://h/p'', readyState = CONNECTING, sock_promise = 0\<rparr>],
       promises = [Pending], timers = [ConnectionTimeout 10000 0],
       timeouts_set = [ConnectionTimeout 10000 0], status = Connecting, errors = []\<rparr>"
    by (simp add: connecting_service_def connect_def new_service_def always_ok_def setTimeout_def)
  have h: "ws connecting_service = Some 0"
    "0 < length (sockets connecting_service)"
    "readyState (sockets connecting_service ! 0) \<noteq> CLOSED"
    "reconnectAttempts connecting_service < 3"
    "readyState (sockets connecting_service ! 0) = CONNECTING"
    by (simp_all add: cs)
  let ?r = "run always_ok [SockClose 0 False, TimerFires 1] connecting_service"
  have lower: "reconnectAttempts (step always_ok (SockOpen 1) ?r) < reconnectAttempts ?r"
    by (simp add: cs always_ok_def connect_def setTimeout_def onopen_def onclose_def
        reconnect_def fire_timer_def reconnect_fires_def maxReconnectAttempts_def
        reconnectDelay_def Let_def)
  note t = disconnect_effect [where s = connecting_service and i = 0 and W = always_ok]
  note t' = disconnect_effect [where s = ?r and e = "SockOpen 1" and W = always_ok]
  from t h have r1:
    "timers (step always_ok (SockClose 0 False) (disconnect connecting_service)) =
        timers connecting_service @ [ReconnectTimer (1000 * (reconnectAttempts connecting_service + 1))]"
    by blast
  from t h have r2: "reconnectAttempts (step always_ok (SockOpen 0) connecting_service) = 0"
    by blast
  note r = r1 r2
  from t' lower have ex: "\<exists>j. SockOpen 1 = SockOpen j" by blast
  show ?thesis
    by (intro conjI h r lower ex)
qed

text \<open>
  Claim C6 as stated fails after one unclean closure: the reconnect is pending when the
  client disconnects, the counter stays at 1, the timer stays in place, and when it
  comes due the service opens a new connection.
\<close>

theorem disconnect_keeps_reconnect_counterexample:
  "reconnectAttempts (run always_ok dropped_then_disconnected new_service) = 1
   \<and> timers (run always_ok dropped_then_disconnected new_service)
       = [ConnectionTimeout 10000 0, ReconnectTimer 1000]
   \<and> sockets (run always_ok (dropped_then_disconnected @ [TimerFires 1]) new_service)
       = [\<lparr>sock_url = ''ws://h/p'', readyState = CLOSED, sock_promise = 0\<rparr>,
          \<lparr>sock_url = ''ws://h/p'', readyState = CONNECTING, sock_promise = 1\<rparr>]
   \<and> status (run always_ok (dropped_then_disconnected @ [TimerFires 1]) new_service) = Connecting"
  by (simp add: dropped_then_disconnected_def connect_def new_service_def always_ok_def
      setTimeout_def onclose_def reconnect_def fire_timer_def reconnect_fires_def
      maxReconnectAttempts_def reconnectDelay_def Let_def disconnect_def socket_close_def)


lemma filter_update_le:
  assumes "i < length xs" "P x \<longrightarrow> P (xs ! i)"
  shows "length (filter P (xs[i := x])) \<le> length (filter P xs)"
  using assms
proof (induction xs arbitrary: i)
  case Nil
  then show ?case by simp
next
  case (Cons a xs)
  then show ?case by (cases i) auto
qed

lemma active_socket_close:
  "length (filter active (socket_close i socks)) \<le> length (filter active socks)"
  by (simp add: socket_close_def filter_update_le active_def)

lemma active_connect:
  "active_connections (connect W u s) \<le> Suc (active_connections s)"
  by (simp add: connect_def active_connections_def setTimeout_def Let_def split: option.splits)

lemma active_not_opening:
  assumes "\<not> opens_connection e s"
  shows "active_connections (step W e s) \<le> active_connections s"
proof (cases e)
  case (ApiConnect u)
  with assms show ?thesis by simp
next
  case ApiDisconnect
  then show ?thesis
    by (simp add: disconnect_def active_connections_def active_socket_close split: option.splits)
next
  case (SockOpen i)
  then show ?thesis
    by (simp add: onopen_def active_connections_def filter_update_le active_def)
next
  case (SockError i)
  then show ?thesis by (simp add: onerror_def active_connections_def)
next
  case (SockClose i c)
  then show ?thesis
    by (simp add: onclose_def reconnect_def setTimeout_def Let_def active_connections_def
        filter_update_le active_def)
next
  case (TimerFires k)
  show ?thesis
  proof (cases "k < length (timers s)")
    case False
    with TimerFires show ?thesis by (simp add: fire_timer_def)
  next
    case True
    with assms TimerFires obtain d p where "timers s ! k = ConnectionTimeout d p"
      by (cases "timers s ! k") simp_all
    with True TimerFires show ?thesis
      by (simp add: fire_timer_def connection_timeout_def active_connections_def
          active_socket_close Let_def split: option.splits)
  qed
qed

lemma active_opening:
  assumes "opens_connection e s"
  shows "active_connections (step W e s) \<le> Suc (active_connections s)"
proof (cases e)
  case (ApiConnect u)
  then show ?thesis by (simp add: active_connect)
next
  case (TimerFires k)
  with assms obtain d where k: "k < length (timers s)" "timers s ! k = ReconnectTimer d"
    by (cases "timers s ! k") simp_all
  let ?s1 = "s\<lparr>timers := take k (timers s) @ drop (Suc k) (timers s)\<rparr>"
  have "active_connections (reconnect_fires W ?s1) \<le> Suc (active_connections ?s1)"
    using active_connect [of W "url ?s1" ?s1] by (simp add: reconnect_fires_def)
  moreover have "active_connections ?s1 = active_connections s"
    by (simp add: active_connections_def)
  ultimately show ?thesis using k TimerFires by (simp add: fire_timer_def)
qed (use assms in simp_all)

text \<open>
  Claim C8, as the code has it. The number of active connections stays at most one
  under every event that opens no connection, and under a \<open>connect\<close> or a reconnect
  that happens while no connection is active. \<open>connect\<close> makes \<open>ws\<close> reference the
  socket it creates and leaves every earlier socket as it was, so it adds one to the
  number of active connections.
\<close>

theorem single_connection_preserved:
  "(active_connections s \<le> 1 \<and> (opens_connection e s \<longrightarrow> active_connections s = 0)
      \<longrightarrow> active_connections (step W e s) \<le> 1)
   \<and> (W u = None
      \<longrightarrow> ws (connect W u s) = Some (length (sockets s))
        \<and> sockets (connect W u s) =
            sockets s @ [\<lparr>sock_url = u, readyState = CONNECTING, sock_promise = length (promises s)\<rparr>]
        \<and> active_connections (connect W u s) = Suc (active_connections s))"
proof (intro conjI impI)
  assume a: "active_connections s \<le> 1 \<and> (opens_connection e s \<longrightarrow> active_connections s = 0)"
  show "active_connections (step W e s) \<le> 1"
  proof (cases "opens_connection e s")
    case True
    with a have "active_connections s = 0" by simp
    with active_opening [OF True, of W] show ?thesis by simp
  next
    case False
    from active_not_opening [OF False, of W] a show ?thesis by simp
  qed
next
  assume "W u = None"
  then show "ws (connect W u s) = Some (length (sockets s))"
    and "sockets (connect W u s) =
        sockets s @ [\<lparr>sock_url = u, readyState = CONNECTING, sock_promise = length (promises s)\<rparr>]"
    and "active_connections (connect W u s) = Suc (active_connections s)"
    by (simp_all add: connect_def setTimeout_def active_connections_def active_def Let_def)
qed

theorem single_connection_preserved_witness:
  "active_connections (run always_ok [ApiConnect ''ws://h/p'', SockOpen 0] new_service) \<le> 1
   \<and> \<not> opens_connection (SockClose 0 False) (run always_ok [ApiConnect ''ws://h/p'', SockOpen 0] new_service)
   \<and> active_connections (step always_ok (SockClose 0 False)
        (run always_ok [ApiConnect ''ws://h/p'', SockOpen 0] new_service)) \<le> 1
   \<and> active_connections new_service = 0
   \<and> opens_connection (ApiConnect ''ws://h/p'') new_service
   \<and> active_connections (step always_ok (ApiConnect ''ws://h/p'') new_service) \<le> 1
   \<and> always_ok ''ws://h/p'' = None
   \<and> ws (connect always_ok ''ws://h/p'' connecting_service) = Some 1
   \<and> active_connections (connect always_ok ''ws://h/p'' connecting_service) = 2"
  using single_connection_preserved [of "run always_ok [ApiConnect ''ws://h/p'', SockOpen 0] new_service"
          "SockClose 0 False" always_ok]
    single_connection_preserved [of new_service "ApiConnect ''ws://h/p''" always_ok]
    single_connection_preserved [of connecting_service _ always_ok "''ws://h/p''"]
  by (simp add: connecting_service_def connect_def new_service_def always_ok_def setTimeout_def
      onopen_def active_connections_def active_def Let_def)

text \<open>
  Claim C8 as stated fails when \<open>connect\<close> is called on an open connection: the first
  socket stays open, with its handlers attached, beside the new one.
\<close>

theorem second_connect_counterexample:
  "active_connections
     (run always_ok [ApiConnect ''ws://h/p'', SockOpen 0, ApiConnect ''ws://h/p''] new_service) = 2"
  by (simp add: connect_def new_service_def always_ok_def setTimeout_def onopen_def
      active_connections_def active_def Let_def)

lemma attempts_step:
  assumes "reconnectAttempts s \<le> maxReconnectAttempts"
  shows "reconnectAttempts (step W e s) \<le> maxReconnectAttempts"
proof (cases e)
  case (TimerFires k)
  show ?thesis
  proof (cases "k < length (timers s)")
    case True
    with TimerFires assms show ?thesis
      by (cases "timers s ! k")
         (simp_all add: fire_timer_def connection_timeout_def reconnect_fires_def connect_def
            setTimeout_def Let_def split: option.splits)
  next
    case False
    with TimerFires assms show ?thesis by (simp add: fire_timer_def)
  qed
qed (use assms in \<open>simp_all add: connect_def disconnect_def onopen_def onerror_def onclose_def
      reconnect_def setTimeout_def Let_def split: option.splits\<close>)

lemma attempts_run:
  "reconnectAttempts s \<le> maxReconnectAttempts \<Longrightarrow>
     reconnectAttempts (run W es s) \<le> maxReconnectAttempts"
  by (induction es arbitrary: s) (simp_all add: attempts_step)

text \<open>
  In every run from a new service, with client calls and opened connections included,
  the attempt counter never exceeds 3. So the test in the reconnect callback always
  passes: a reconnect timer that comes due always calls \<open>connect\<close> on the stored url.
\<close>

theorem reconnect_guard_never_blocks:
  "reconnectAttempts (run W es new_service) \<le> 3
   \<and> (k < length (timers (run W es new_service))
        \<and> timers (run W es new_service) ! k = ReconnectTimer d
      \<longrightarrow> step W (TimerFires k) (run W es new_service) =
            connect W (url (run W es new_service))
              ((run W es new_service)\<lparr>timers := take k (timers (run W es new_service))
                  @ drop (Suc k) (timers (run W es new_service))\<rparr>))"
proof -
  have a: "reconnectAttempts (run W es new_service) \<le> maxReconnectAttempts"
    by (rule attempts_run) (simp add: new_service_def)
  then show ?thesis
    by (simp add: fire_timer_def reconnect_fires_def maxReconnectAttempts_def)
qed

theorem reconnect_guard_never_blocks_witness:
  "1 < length (timers (run always_ok dropped_then_disconnected new_service))
   \<and> timers (run always_ok dropped_then_disconnected new_service) ! 1 = ReconnectTimer 1000
   \<and> reconnectAttempts (run always_ok dropped_then_disconnected new_service) \<le> 3
   \<and> ws (step always_ok (TimerFires 1) (run always_ok dropped_then_disconnected new_service)) = Some 1"
  using reconnect_guard_never_blocks [of always_ok dropped_then_disconnected 1 1000]
  by (simp add: dropped_then_disconnected_def connect_def new_service_def always_ok_def
      setTimeout_def onclose_def reconnect_def disconnect_def socket_close_def
      maxReconnectAttempts_def reconnectDelay_def Let_def)

section \<open>Properties of the decryption engine and the archive extractor\<close>

lemma ucast_low_byte: "(ucast (x AND 0xff :: 32 word) :: 8 word) = ucast x"
proof -
  have m: "(0xff :: 32 word) = mask 8" by (simp add: mask_eq_exp_minus_1)
  show ?thesis
    unfolding m by (rule bit_word_eqI) (auto simp add: bit_simps)
qed

lemma length_word_bytes: "length (word_bytes w) = 4"
  by (simp add: word_bytes_def)

lemma length_concat_word_bytes: "length (concat (map word_bytes wds)) = 4 * length wds"
  by (induction wds) (simp_all add: length_word_bytes)

lemma byte_at_head:
  assumes "i < 4"
  shows "byte_at (w # wds) i = word_bytes w ! i"
proof -
  from assms consider "i = 0" | "i = 1" | "i = 2" | "i = 3" by linarith
  then show ?thesis
    by cases (simp_all add: byte_at_def word_bytes_def ucast_low_byte)
qed

lemma byte_at_tail:
  assumes "4 \<le> i"
  shows "byte_at (w # wds) i = byte_at wds (i - 4)"
proof -
  from assms have "i div 4 = Suc ((i - 4) div 4)" "i mod 4 = (i - 4) mod 4"
    by (simp_all add: le_div_geq le_mod_geq)
  then show ?thesis by (simp add: byte_at_def Let_def)
qed

lemma byte_at_concat:
  "i < 4 * length wds \<Longrightarrow> byte_at wds i = concat (map word_bytes wds) ! i"
proof (induction wds arbitrary: i)
  case Nil
  then show ?case by simp
next
  case (Cons w wds)
  show ?case
  proof (cases "i < 4")
    case True
    then show ?thesis by (simp add: byte_at_head nth_append length_word_bytes)
  next
    case False
    with Cons.prems have "i - 4 < 4 * length wds" by simp
    then have "byte_at wds (i - 4) = concat (map word_bytes wds) ! (i - 4)"
      by (rule Cons.IH)
    with False show ?thesis by (simp add: byte_at_tail nth_append length_word_bytes)
  qed
qed

lemma decrypted_bytes_represents:
  assumes "represents wa p"
  shows "decrypted_bytes wa = Inr p"
proof -
  from assms have n: "sigBytes wa = int (length p)" and le: "length p \<le> 4 * length (words wa)"
    and tk: "take (length p) (concat (map word_bytes (words wa))) = p"
    by (simp_all add: represents_def)
  have "map (byte_at (words wa)) [0..<length p] = take (length p) (concat (map word_bytes (words wa)))"
  proof (rule nth_equalityI)
    show "length (map (byte_at (words wa)) [0..<length p]) =
        length (take (length p) (concat (map word_bytes (words wa))))"
      using le by (simp add: length_concat_word_bytes)
  next
    fix i assume "i < length (map (byte_at (words wa)) [0..<length p])"
    then have i: "i < length p" by simp
    with le have "i < 4 * length (words wa)" by simp
    then have "byte_at (words wa) i = concat (map word_bytes (words wa)) ! i"
      by (rule byte_at_concat)
    with i show "map (byte_at (words wa)) [0..<length p] ! i =
        take (length p) (concat (map word_bytes (words wa))) ! i"
      by simp
  qed
  with n tk show ?thesis by (simp add: decrypted_bytes_def)
qed

text \<open>
  Claim C2. Direct-key convention: the transmitted bytes are a 16-byte IV followed by a
  ciphertext \<open>ct\<close> that AES-CBC with PKCS#7, under the UTF-8 bytes of the key material
  and that IV, decrypts to the plaintext \<open>p\<close>; then \<open>decryptAES\<close> returns \<open>p\<close>, byte
  for byte. Passphrase and salt convention: the transmitted bytes are an 8-byte salt
  followed by \<open>ct\<close>, the derivation over passphrase and salt with 12 words and 1000
  iterations yields \<open>keyIv\<close>, and the cipher under the first 8 words as key and the next
  4 as IV decrypts \<open>ct\<close> to \<open>p\<close>; then \<open>decryptAESWithSalt\<close> returns \<open>p\<close>. That the
  library decrypts to \<open>p\<close> means that its word array represents \<open>p\<close>.
\<close>

theorem round_trip:
  "(length iv = 16
      \<and> Utf8_parse lib keyMaterial = Inr k
      \<and> AES_decrypt lib (WordArray_create lib ct) k (WordArray_create lib iv) = Inr wa
      \<and> represents wa p
    \<longrightarrow> decryptAES lib (iv @ ct) keyMaterial None = Some p)
   \<and> (length salt = 8
      \<and> PBKDF2 lib keyMaterial (WordArray_create lib salt) 12 1000 = Inr keyIv
      \<and> AES_decrypt lib (WordArray_create lib ct)
            (WordArray_of_words lib (take 8 (words keyIv)))
            (WordArray_of_words lib (take 4 (drop 8 (words keyIv)))) = Inr wa
      \<and> represents wa p
    \<longrightarrow> decryptAESWithSalt lib (salt @ ct) keyMaterial = Some p)"
proof (intro conjI impI)
  assume "length iv = 16
      \<and> Utf8_parse lib keyMaterial = Inr k
      \<and> AES_decrypt lib (WordArray_create lib ct) k (WordArray_create lib iv) = Inr wa
      \<and> represents wa p"
  then show "decryptAES lib (iv @ ct) keyMaterial None = Some p"
    by (auto simp add: decryptAES_def decryptAES_try_def decrypted_bytes_represents)
next
  assume "length salt = 8
      \<and> PBKDF2 lib keyMaterial (WordArray_create lib salt) 12 1000 = Inr keyIv
      \<and> AES_decrypt lib (WordArray_create lib ct)
            (WordArray_of_words lib (take 8 (words keyIv)))
            (WordArray_of_words lib (take 4 (drop 8 (words keyIv)))) = Inr wa
      \<and> represents wa p"
  then show "decryptAESWithSalt lib (salt @ ct) keyMaterial = Some p"
    by (auto simp add: decryptAESWithSalt_def decryptAESWithSalt_try_def decrypted_bytes_represents Let_def)
qed

lemma sample_key: "Utf8_parse toy_cryptojs (js ''k'') = Inr (pack [107])"
  by code_simp

lemma sample_derivation:
  "PBKDF2 toy_cryptojs (js ''k'') (WordArray_create toy_cryptojs (replicate 8 0)) 12 1000
     = Inr \<lparr>words = replicate 8 7 @ replicate 4 9, sigBytes = 48\<rparr>"
  by code_simp

theorem round_trip_witness:
  "length (replicate 16 (0::byte)) = 16
   \<and> Utf8_parse toy_cryptojs (js ''k'') = Inr (pack [107])
   \<and> AES_decrypt toy_cryptojs (WordArray_create toy_cryptojs [1, 2, 3]) (pack [107])
        (WordArray_create toy_cryptojs (replicate 16 0)) = Inr \<lparr>words = [0x68690A00], sigBytes = 3\<rparr>
   \<and> represents \<lparr>words = [0x68690A00], sigBytes = 3\<rparr> [0x68, 0x69, 0x0A]
   \<and> decryptAES toy_cryptojs (replicate 16 0 @ [1, 2, 3]) (js ''k'') None = Some [0x68, 0x69, 0x0A]
   \<and> length (replicate 8 (0::byte)) = 8
   \<and> PBKDF2 toy_cryptojs (js ''k'') (WordArray_create toy_cryptojs (replicate 8 0)) 12 1000
        = Inr \<lparr>words = replicate 8 7 @ replicate 4 9, sigBytes = 48\<rparr>
   \<and> AES_decrypt toy_cryptojs (WordArray_create toy_cryptojs [4, 5, 6, 7, 8, 9, 10, 11, 12, 13])
        (WordArray_of_words toy_cryptojs (take 8 (replicate 8 7 @ replicate 4 9)))
        (WordArray_of_words toy_cryptojs (take 4 (drop 8 (replicate 8 7 @ replicate 4 9))))
        = Inr \<lparr>words = [0x6F6B0000], sigBytes = 2\<rparr>
   \<and> represents \<lparr>words = [0x6F6B0000], sigBytes = 2\<rparr> [0x6F, 0x6B]
   \<and> decryptAESWithSalt toy_cryptojs (replicate 8 0 @ [4, 5, 6, 7, 8, 9, 10, 11, 12, 13]) (js ''k'')
        = Some [0x6F, 0x6B]"
  using round_trip [where lib = toy_cryptojs and keyMaterial = "js ''k''" and iv = "replicate 16 0"
            and k = "pack [107]" and ct = "[1, 2, 3]"
            and wa = "\<lparr>words = [0x68690A00], sigBytes = 3\<rparr>" and p = "[0x68, 0x69, 0x0A]"]
    round_trip [where lib = toy_cryptojs and keyMaterial = "js ''k''" and salt = "replicate 8 0"
            and keyIv = "\<lparr>words = replicate 8 7 @ replicate 4 9, sigBytes = 48\<rparr>"
            and ct = "[4, 5, 6, 7, 8, 9, 10, 11, 12, 13]"
            and wa = "\<lparr>words = [0x6F6B0000], sigBytes = 2\<rparr>" and p = "[0x6F, 0x6B]"]
    sample_key sample_derivation
  by (simp add: toy_cryptojs_def pack_def represents_def word_bytes_def)

lemma sample_decrypt:
  "decryptAES toy_cryptojs (replicate 16 0 @ [1, 2, 3]) (js ''k'') None = Some [0x68, 0x69, 0x0A]"
  "decryptAES toy_cryptojs salted_sample (js ''k'') None = None"
  "decryptAESWithSalt toy_cryptojs salted_sample (js ''k'') = Some [0x6F, 0x6B]"
  by code_simp+

lemma malformed_key:
  "Utf8_parse toy_cryptojs lone_surrogate = Inl (JsError ''URI malformed'')"
  "PBKDF2 toy_cryptojs lone_surrogate salt 12 1000 = Inl (JsError ''URI malformed'')"
  by (simp_all add: toy_cryptojs_def utf8_parse_def lone_surrogate_def)

lemma malformed_key_rejected:
  "decryptAES toy_cryptojs d lone_surrogate None = None"
  "decryptAESWithSalt toy_cryptojs d lone_surrogate = None"
  by (simp_all add: decryptAES_def decryptAES_try_def decryptAESWithSalt_def
      decryptAESWithSalt_try_def malformed_key Let_def)

text \<open>
  Claim C1, as the code has it. \<open>decryptAES\<close> is called first, and
  \<open>decryptAESWithSalt\<close> is called exactly when \<open>decryptAES\<close> has returned \<open>null\<close>; the
  first of the two that returns bytes determines what is extracted. Either function
  returns \<open>null\<close> exactly when a fault is thrown inside it, which its \<open>catch\<close> block
  absorbs. When both return \<open>null\<close> the result is the failure record with the message
  \<open>Failed to decrypt data\<close>; nothing is thrown.
\<close>

theorem decrypt_order:
  "fst (decrypt_stage lib d k iv) =
      (if decryptAES lib d k iv = None then [DirectKey, PassphraseSalt] else [DirectKey])
   \<and> snd (decrypt_stage lib d k iv) =
      (case decryptAES lib d k iv of Some p \<Rightarrow> Some p | None \<Rightarrow> decryptAESWithSalt lib d k)
   \<and> (decryptAES lib d k iv = None) = (\<exists>e. decryptAES_try lib d k iv = Inl e)
   \<and> (decryptAESWithSalt lib d k = None) = (\<exists>e. decryptAESWithSalt_try lib d k = Inl e)
   \<and> (decryptAES lib d k iv = Some p
        \<longrightarrow> decryptAndExtractZip lib host d k iv = extract_zip host p)
   \<and> (decryptAES lib d k iv = None \<and> decryptAESWithSalt lib d k = Some p
        \<longrightarrow> decryptAndExtractZip lib host d k iv = extract_zip host p)
   \<and> (decryptAES lib d k iv = None \<and> decryptAESWithSalt lib d k = None
        \<longrightarrow> decryptAndExtractZip lib host d k iv =
              \<lparr>success = False, files = None, error = Some ''Failed to decrypt data''\<rparr>)"
proof (intro conjI impI)
  show "fst (decrypt_stage lib d k iv) =
      (if decryptAES lib d k iv = None then [DirectKey, PassphraseSalt] else [DirectKey])"
    by (cases "decryptAES lib d k iv") (simp_all add: decrypt_stage_def)
next
  show "snd (decrypt_stage lib d k iv) =
      (case decryptAES lib d k iv of Some p \<Rightarrow> Some p | None \<Rightarrow> decryptAESWithSalt lib d k)"
    by (cases "decryptAES lib d k iv") (simp_all add: decrypt_stage_def)
next
  show "(decryptAES lib d k iv = None) = (\<exists>e. decryptAES_try lib d k iv = Inl e)"
    by (cases "decryptAES_try lib d k iv") (simp_all add: decryptAES_def)
next
  show "(decryptAESWithSalt lib d k = None) = (\<exists>e. decryptAESWithSalt_try lib d k = Inl e)"
    by (cases "decryptAESWithSalt_try lib d k") (simp_all add: decryptAESWithSalt_def)
next
  assume "decryptAES lib d k iv = Some p"
  then show "decryptAndExtractZip lib host d k iv = extract_zip host p"
    by (simp add: decryptAndExtractZip_def decrypt_stage_def)
next
  assume "decryptAES lib d k iv = None \<and> decryptAESWithSalt lib d k = Some p"
  then show "decryptAndExtractZip lib host d k iv = extract_zip host p"
    by (simp add: decryptAndExtractZip_def decrypt_stage_def)
next
  assume "decryptAES lib d k iv = None \<and> decryptAESWithSalt lib d k = None"
  then show "decryptAndExtractZip lib host d k iv =
      \<lparr>success = False, files = None, error = Some ''Failed to decrypt data''\<rparr>"
    by (simp add: decryptAndExtractZip_def decrypt_stage_def)
qed

theorem decrypt_order_witness:
  "decryptAES toy_cryptojs (replicate 16 0 @ [1, 2, 3]) (js ''k'') None = Some [0x68, 0x69, 0x0A]
   \<and> fst (decrypt_stage toy_cryptojs (replicate 16 0 @ [1, 2, 3]) (js ''k'') None) = [DirectKey]
   \<and> decryptAndExtractZip toy_cryptojs toy_zip (replicate 16 0 @ [1, 2, 3]) (js ''k'') None
        = extract_zip toy_zip [0x68, 0x69, 0x0A]
   \<and> decryptAES toy_cryptojs salted_sample (js ''k'') None = None
   \<and> decryptAESWithSalt toy_cryptojs salted_sample (js ''k'') = Some [0x6F, 0x6B]
   \<and> fst (decrypt_stage toy_cryptojs salted_sample (js ''k'') None) = [DirectKey, PassphraseSalt]
   \<and> decryptAndExtractZip toy_cryptojs toy_zip salted_sample (js ''k'') None
        = extract_zip toy_zip [0x6F, 0x6B]
   \<and> decryptAES toy_cryptojs [1, 2, 3] lone_surrogate None = None
   \<and> decryptAESWithSalt toy_cryptojs [1, 2, 3] lone_surrogate = None
   \<and> decryptAndExtractZip toy_cryptojs toy_zip [1, 2, 3] lone_surrogate None =
        \<lparr>success = False, files = None, error = Some ''Failed to decrypt data''\<rparr>"
  using
    decrypt_order [where lib = toy_cryptojs and host = toy_zip and d = "replicate 16 0 @ [1, 2, 3]"
      and k = "js ''k''" and iv = None and p = "[0x68, 0x69, 0x0A]"]
    decrypt_order [where lib = toy_cryptojs and host = toy_zip and d = salted_sample
      and k = "js ''k''" and iv = None and p = "[0x6F, 0x6B]"]
    decrypt_order [where lib = toy_cryptojs and host = toy_zip and d = "[1, 2, 3]"
      and k = lone_surrogate and iv = None]
  by (simp add: sample_decrypt malformed_key_rejected)

text \<open>
  Claim C1 as stated names another reason. Take as key material the string that is one
  unpaired surrogate, with any data. \<open>decryptAES\<close> parses the key first and
  \<open>decryptAESWithSalt\<close> hands it to the key derivation, which parses it first; the
  string has no UTF-8 encoding, both calls throw \<open>URI malformed\<close> before any cipher
  runs, and both functions return \<open>null\<close>. The message of the failure is
  \<open>Failed to decrypt data\<close>, not \<open>unable to decrypt\<close>.
\<close>

theorem decrypt_failure_message_counterexample:
  "Utf8_parse toy_cryptojs lone_surrogate = Inl (JsError ''URI malformed'')
   \<and> decryptAES toy_cryptojs [1, 2, 3] lone_surrogate None = None
   \<and> decryptAESWithSalt toy_cryptojs [1, 2, 3] lone_surrogate = None
   \<and> decryptAndExtractZip toy_cryptojs toy_zip [1, 2, 3] lone_surrogate None =
        \<lparr>success = False, files = None, error = Some ''Failed to decrypt data''\<rparr>
   \<and> error (decryptAndExtractZip toy_cryptojs toy_zip [1, 2, 3] lone_surrogate None)
        \<noteq> Some ''unable to decrypt''"
  by (simp add: malformed_key malformed_key_rejected decrypt_stage_def decryptAndExtractZip_def)

lemma lastIndexOf_from_absent:
  "c \<notin> set xs \<Longrightarrow> lastIndexOf_from xs c i found = found"
  by (induction xs arbitrary: i found) auto

lemma lastIndexOf_from_append:
  "lastIndexOf_from (xs @ ys) c i found =
     lastIndexOf_from ys c (i + length xs) (lastIndexOf_from xs c i found)"
  by (induction xs arbitrary: i found) simp_all

lemma lastIndexOf_last_dot:
  assumes "c \<notin> set e"
  shows "lastIndexOf (base @ c # e) c = int (length base)"
  using assms
  by (simp add: lastIndexOf_def lastIndexOf_from_append lastIndexOf_from_absent)

lemma lastIndexOf_none: "c \<notin> set s \<Longrightarrow> lastIndexOf s c = - 1"
  by (simp add: lastIndexOf_def lastIndexOf_from_absent)

lemma dotted_extension:
  "(dot # le \<in> set imageExtensions) =
     (le \<in> set (map js [''jpg'', ''jpeg'', ''png'', ''gif'', ''bmp'', ''webp'', ''svg'']))"
  by (auto simp add: imageExtensions_def js_def dot_def)

lemma extensions_start_with_dot: "x \<in> set imageExtensions \<Longrightarrow> dot \<in> set x"
  by (auto simp add: imageExtensions_def js_def dot_def)

lemma isImageFile_dotted:
  assumes "dot \<notin> set e"
    and "toLowerCase host (base @ dot # e) = lbase @ dot # le"
    and "length lbase = length base"
  shows "isImageFile host (base @ dot # e) =
     (le \<in> set (map js [''jpg'', ''jpeg'', ''png'', ''gif'', ''bmp'', ''webp'', ''svg'']))"
proof -
  from assms(1) have "lastIndexOf (base @ dot # e) dot = int (length base)"
    by (rule lastIndexOf_last_dot)
  with assms(2,3)
  have "substring (toLowerCase host (base @ dot # e)) (lastIndexOf (base @ dot # e) dot) = dot # le"
    by (simp add: substring_def)
  then show ?thesis
    by (simp only: isImageFile_def Let_def dotted_extension)
qed

lemma isImageFile_undotted:
  assumes "dot \<notin> set name" and "dot \<notin> set (toLowerCase host name)"
  shows "\<not> isImageFile host name"
proof
  assume "isImageFile host name"
  moreover from assms(1) have "lastIndexOf name dot = - 1"
    by (rule lastIndexOf_none)
  ultimately have "toLowerCase host name \<in> set imageExtensions"
    by (simp add: isImageFile_def substring_def)
  then have "dot \<in> set (toLowerCase host name)"
    by (rule extensions_start_with_dot)
  with assms(2) show False by simp
qed

lemma process_entries_keys:
  "fst ` set (process_entries host entries fs) =
     fst ` set fs \<union> fst ` set (filter (kept_entry host) entries)"
proof (induction entries arbitrary: fs)
  case Nil
  then show ?case by simp
next
  case (Cons entry entries)
  obtain filename zobj where e: "entry = (filename, zobj)" by (cases entry)
  show ?case
    unfolding e
    by (cases "async_arraybuffer zobj")
       (auto simp add: Cons.IH kept_entry_def AList.dom_update)
qed

lemma keys_empty: "fst ` set xs = {} \<longleftrightarrow> xs = []"
  by simp

lemma process_entries_empty:
  "process_entries host entries [] = [] \<longleftrightarrow> filter (kept_entry host) entries = []"
proof -
  have "process_entries host entries [] = [] \<longleftrightarrow> fst ` set (process_entries host entries []) = {}"
    by (rule keys_empty [symmetric])
  also have "\<dots> \<longleftrightarrow> fst ` set (filter (kept_entry host) entries) = {}"
    by (simp only: process_entries_keys) simp
  also have "\<dots> \<longleftrightarrow> filter (kept_entry host) entries = []"
    by (rule keys_empty)
  finally show ?thesis .
qed

lemma extract_zip_success:
  "success (extract_zip host p) \<Longrightarrow> \<exists>fs. files (extract_zip host p) = Some fs \<and> fs \<noteq> []"
  by (auto simp add: extract_zip_def Let_def split: sum.splits if_splits)

lemma sample_names:
  "isImageFile toy_zip (js ''img/a.PNG'')" "\<not> isImageFile toy_zip (js ''notes.txt'')"
  "\<not> isImageFile toy_zip (js ''img/'')" "isImageFile toy_zip (js ''a.png'')"
  by code_simp+

lemma sample_lower:
  "toLowerCase toy_zip (js ''img/a'' @ dot # js ''PNG'') = js ''img/a'' @ dot # js ''png''"
  "dot \<notin> set (js ''PNG'')" "dot \<notin> set (js ''png'')" "dot \<notin> set (toLowerCase toy_zip (js ''png''))"
  "js ''png'' \<in> set (map js [''jpg'', ''jpeg'', ''png'', ''gif'', ''bmp'', ''webp'', ''svg''])"
  by code_simp+

text \<open>
  Claim C3, as the code has it. The files of the result are exactly the entries that are
  no directory, that \<open>isImageFile\<close> accepts and that can be read; every other entry is
  passed over. When no entry is kept, the result is the failure with the message
  \<open>No image files found in archive\<close>, and a successful result never has an empty set
  of files. \<open>isImageFile\<close> compares what follows the last dot, in lower case, with jpg,
  jpeg, png, gif, bmp, webp and svg, for every name whose part before the last dot
  keeps its length when the name is lower-cased; a name without a dot, lower-cased or
  not, is not accepted. Nothing is said here of a name whose part before the last dot
  changes its length in lower case.
\<close>

theorem extraction_keeps_readable_images:
  "(loadAsync host p = Inr entries \<and> filter (kept_entry host) entries = []
      \<longrightarrow> extract_zip host p =
            \<lparr>success = False, files = None, error = Some ''No image files found in archive''\<rparr>)
   \<and> (loadAsync host p = Inr entries \<and> filter (kept_entry host) entries \<noteq> []
      \<longrightarrow> (\<exists>fs. extract_zip host p = \<lparr>success = True, files = Some fs, error = None\<rparr>
              \<and> fst ` set fs = fst ` set (filter (kept_entry host) entries)))
   \<and> (success (extract_zip host p) \<longrightarrow> (\<exists>fs. files (extract_zip host p) = Some fs \<and> fs \<noteq> []))
   \<and> (dot \<notin> set e \<and> toLowerCase host (base @ dot # e) = lbase @ dot # le
        \<and> length lbase = length base
      \<longrightarrow> isImageFile host (base @ dot # e) =
          (le \<in> set (map js [''jpg'', ''jpeg'', ''png'', ''gif'', ''bmp'', ''webp'', ''svg''])))
   \<and> (dot \<notin> set name \<and> dot \<notin> set (toLowerCase host name) \<longrightarrow> \<not> isImageFile host name)"
proof (intro conjI impI)
  assume "loadAsync host p = Inr entries \<and> filter (kept_entry host) entries = []"
  then show "extract_zip host p =
      \<lparr>success = False, files = None, error = Some ''No image files found in archive''\<rparr>"
    by (simp add: extract_zip_def process_entries_empty)
next
  assume a: "loadAsync host p = Inr entries \<and> filter (kept_entry host) entries \<noteq> []"
  then have "process_entries host entries [] \<noteq> []"
    by (simp add: process_entries_empty)
  with a have "extract_zip host p =
      \<lparr>success = True, files = Some (process_entries host entries []), error = None\<rparr>"
    by (simp add: extract_zip_def)
  moreover have "fst ` set (process_entries host entries []) =
      fst ` set (filter (kept_entry host) entries)"
    by (simp only: process_entries_keys) simp
  ultimately show "\<exists>fs. extract_zip host p = \<lparr>success = True, files = Some fs, error = None\<rparr>
      \<and> fst ` set fs = fst ` set (filter (kept_entry host) entries)"
    by blast
next
  assume "success (extract_zip host p)"
  then show "\<exists>fs. files (extract_zip host p) = Some fs \<and> fs \<noteq> []"
    by (rule extract_zip_success)
next
  assume "dot \<notin> set e \<and> toLowerCase host (base @ dot # e) = lbase @ dot # le
      \<and> length lbase = length base"
  then show "isImageFile host (base @ dot # e) =
      (le \<in> set (map js [''jpg'', ''jpeg'', ''png'', ''gif'', ''bmp'', ''webp'', ''svg'']))"
    using isImageFile_dotted [of e host base lbase le] by blast
next
  assume "dot \<notin> set name \<and> dot \<notin> set (toLowerCase host name)"
  then show "\<not> isImageFile host name"
    using isImageFile_undotted [of name host] by blast
qed

theorem extraction_keeps_readable_images_witness:
  "loadAsync toy_zip [0x6F, 0x6B] =
      Inr [(js ''a.png'', \<lparr>dir = False, async_arraybuffer = Inl (JsError ''Corrupted zip'')\<rparr>)]
   \<and> filter (kept_entry toy_zip)
        [(js ''a.png'', \<lparr>dir = False, async_arraybuffer = Inl (JsError ''Corrupted zip'')\<rparr>)] = []
   \<and> extract_zip toy_zip [0x6F, 0x6B] =
        \<lparr>success = False, files = None, error = Some ''No image files found in archive''\<rparr>
   \<and> loadAsync toy_zip [0x68, 0x69, 0x0A] =
      Inr [(js ''img/'', \<lparr>dir = True, async_arraybuffer = Inr []\<rparr>),
           (js ''img/a.PNG'', \<lparr>dir = False, async_arraybuffer = Inr [1, 2]\<rparr>),
           (js ''notes.txt'', \<lparr>dir = False, async_arraybuffer = Inr [3]\<rparr>)]
   \<and> filter (kept_entry toy_zip)
        [(js ''img/'', \<lparr>dir = True, async_arraybuffer = Inr []\<rparr>),
         (js ''img/a.PNG'', \<lparr>dir = False, async_arraybuffer = Inr [1, 2]\<rparr>),
         (js ''notes.txt'', \<lparr>dir = False, async_arraybuffer = Inr [3]\<rparr>)]
      = [(js ''img/a.PNG'', \<lparr>dir = False, async_arraybuffer = Inr [1, 2]\<rparr>)]
   \<and> (\<exists>fs. extract_zip toy_zip [0x68, 0x69, 0x0A] = \<lparr>success = True, files = Some fs, error = None\<rparr>
          \<and> fst ` set fs = {js ''img/a.PNG''})
   \<and> success (extract_zip toy_zip [0x68, 0x69, 0x0A])
   \<and> (\<exists>fs. files (extract_zip toy_zip [0x68, 0x69, 0x0A]) = Some fs \<and> fs \<noteq> [])
   \<and> dot \<notin> set (js ''PNG'')
   \<and> toLowerCase toy_zip (js ''img/a'' @ dot # js ''PNG'') = js ''img/a'' @ dot # js ''png''
   \<and> isImageFile toy_zip (js ''img/a'' @ dot # js ''PNG'')
   \<and> dot \<notin> set (js ''png'')
   \<and> dot \<notin> set (toLowerCase toy_zip (js ''png''))
   \<and> \<not> isImageFile toy_zip (js ''png'')"
proof -
  let ?bad = "[(js ''a.png'', \<lparr>dir = False, async_arraybuffer = Inl (JsError ''Corrupted zip'')\<rparr>)]"
  let ?good = "[(js ''img/'', \<lparr>dir = True, async_arraybuffer = Inr []\<rparr>),
           (js ''img/a.PNG'', \<lparr>dir = False, async_arraybuffer = Inr [1, 2]\<rparr>),
           (js ''notes.txt'', \<lparr>dir = False, async_arraybuffer = Inr [3]\<rparr>)]"
  have l1: "loadAsync toy_zip [0x6F, 0x6B] = Inr ?bad"
    and l2: "loadAsync toy_zip [0x68, 0x69, 0x0A] = Inr ?good"
    by (simp_all add: toy_zip_def)
  have f1: "filter (kept_entry toy_zip) ?bad = []"
    and f2: "filter (kept_entry toy_zip) ?good =
        [(js ''img/a.PNG'', \<lparr>dir = False, async_arraybuffer = Inr [1, 2]\<rparr>)]"
    by (simp_all add: kept_entry_def sample_names)
  note d = sample_lower(2,3,4)
  note lw = sample_lower(1)
  note t1 = extraction_keeps_readable_images [where host = toy_zip and p = "[0x6F, 0x6B]"
      and entries = ?bad and e = "js ''PNG''" and base = "js ''img/a''" and lbase = "js ''img/a''"
      and le = "js ''png''" and name = "js ''png''"]
  note t2 = extraction_keeps_readable_images [where host = toy_zip and p = "[0x68, 0x69, 0x0A]"
      and entries = ?good and e = "js ''PNG''" and base = "js ''img/a''" and lbase = "js ''img/a''"
      and le = "js ''png''" and name = "js ''png''"]
  have ne: "filter (kept_entry toy_zip) ?good \<noteq> []" by (simp only: f2) simp
  have r1: "extract_zip toy_zip [0x6F, 0x6B] =
        \<lparr>success = False, files = None, error = Some ''No image files found in archive''\<rparr>"
    by (rule t1 [THEN conjunct1, THEN mp]) (rule conjI [OF l1 f1])
  have "\<exists>fs. extract_zip toy_zip [0x68, 0x69, 0x0A] = \<lparr>success = True, files = Some fs, error = None\<rparr>
          \<and> fst ` set fs = fst ` set (filter (kept_entry toy_zip) ?good)"
    by (rule t2 [THEN conjunct2, THEN conjunct1, THEN mp]) (rule conjI [OF l2 ne])
  then have r2: "\<exists>fs. extract_zip toy_zip [0x68, 0x69, 0x0A] = \<lparr>success = True, files = Some fs, error = None\<rparr>
          \<and> fst ` set fs = {js ''img/a.PNG''}"
    by (simp only: f2) simp
  then have s2: "success (extract_zip toy_zip [0x68, 0x69, 0x0A])"
    by (elim exE conjE) (simp only: DecryptionResult.select_convs)
  have r3: "\<exists>fs. files (extract_zip toy_zip [0x68, 0x69, 0x0A]) = Some fs \<and> fs \<noteq> []"
    by (rule t2 [THEN conjunct2, THEN conjunct2, THEN conjunct1, THEN mp]) (rule s2)
  have "isImageFile toy_zip (js ''img/a'' @ dot # js ''PNG'') =
          (js ''png'' \<in> set (map js [''jpg'', ''jpeg'', ''png'', ''gif'', ''bmp'', ''webp'', ''svg'']))"
    by (rule t1 [THEN conjunct2, THEN conjunct2, THEN conjunct2, THEN conjunct1, THEN mp])
       (intro conjI d(1) lw, simp add: js_def)
  then have i1: "isImageFile toy_zip (js ''img/a'' @ dot # js ''PNG'')"
    by (simp only: sample_lower(5))
  have i2: "\<not> isImageFile toy_zip (js ''png'')"
    by (rule t1 [THEN conjunct2, THEN conjunct2, THEN conjunct2, THEN conjunct2, THEN mp])
       (rule conjI [OF d(2) d(3)])
  show ?thesis
    by (intro conjI l1 l2 f1 f2 d lw r1 r2 s2 r3 i1 i2)
qed

text \<open>
  Claim C3 as stated fails on an archive whose only entry is \<open>a.png\<close>, no directory,
  when reading the entry throws: the entry is not kept, and the message of the failure
  is not \<open>no image files found\<close>.
\<close>

theorem unreadable_image_counterexample:
  "loadAsync toy_zip [0x6F, 0x6B] =
      Inr [(js ''a.png'', \<lparr>dir = False, async_arraybuffer = Inl (JsError ''Corrupted zip'')\<rparr>)]
   \<and> isImageFile toy_zip (js ''a.png'')
   \<and> extract_zip toy_zip [0x6F, 0x6B] =
        \<lparr>success = False, files = None, error = Some ''No image files found in archive''\<rparr>
   \<and> error (extract_zip toy_zip [0x6F, 0x6B]) \<noteq> Some ''no image files found''"
proof -
  have l: "loadAsync toy_zip [0x6F, 0x6B] =
      Inr [(js ''a.png'', \<lparr>dir = False, async_arraybuffer = Inl (JsError ''Corrupted zip'')\<rparr>)]"
    by (simp add: toy_zip_def)
  have "process_entries toy_zip
      [(js ''a.png'', \<lparr>dir = False, async_arraybuffer = Inl (JsError ''Corrupted zip'')\<rparr>)] [] = []"
    by simp
  with l have e: "extract_zip toy_zip [0x6F, 0x6B] =
      \<lparr>success = False, files = None, error = Some ''No image files found in archive''\<rparr>"
    by (simp add: extract_zip_def)
  then have "error (extract_zip toy_zip [0x6F, 0x6B]) \<noteq> Some ''no image files found''"
    by simp
  with l e sample_names(4) show ?thesis by blast
qed

text \<open>
  A name whose part before the last dot grows in lower case: U+0130 followed by
  \<open>.png\<close>. The last dot of the name is at index 1; the lower-cased name has the two
  code units U+0069 U+0307 before its dot, and the cut at index 1 yields U+0307
  followed by \<open>.png\<close>, which is no extension of the list. The name is not accepted.
\<close>

lemma dotted_I_png_rejected:
  "lastIndexOf dotted_I_png dot = 1
   \<and> toLowerCase toy_zip dotted_I_png = [0x69, 0x307] @ js ''.png''
   \<and> \<not> isImageFile toy_zip dotted_I_png"
  by code_simp
section \<open>Properties of the orchestrator\<close>




end
